theory Spec2Isabelle
  imports Main
begin

section \<open>JavaScript strings\<close>

text \<open>
  A JavaScript string is a sequence of UTF-16 code units. The script format uses
  Vietnamese labels, so a string is modelled as a list of code units (natural numbers),
  not as a list of 8-bit characters. All labels of the source are in NFC and inside the
  Basic Multilingual Plane: one code unit per letter. \<open>asc\<close> embeds an ASCII literal.
\<close>

type_synonym jsstring = "nat list"

definition asc :: "string \<Rightarrow> jsstring" where
  "asc s = map of_char s"

definition is_digit :: "nat \<Rightarrow> bool" where
  \<comment> \<open>the class \<open>\d\<close>\<close>
  "is_digit c = (48 \<le> c \<and> c \<le> 57)"

definition is_space :: "nat \<Rightarrow> bool" where
  \<comment> \<open>the class \<open>\s\<close>; \<open>String.prototype.trim\<close> strips the same code units\<close>
  "is_space c = (c \<in> {9, 10, 11, 12, 13, 32, 160, 5760, 8232, 8233, 8239, 8287, 12288, 65279}
                 \<or> (8192 \<le> c \<and> c \<le> 8202))"

definition is_line_terminator :: "nat \<Rightarrow> bool" where
  \<comment> \<open>what \<open>.\<close> does not match without the \<open>s\<close> flag\<close>
  "is_line_terminator c = (c \<in> {10, 13, 8232, 8233})"

definition trim :: "jsstring \<Rightarrow> jsstring" where
  "trim s = rev (dropWhile is_space (rev (dropWhile is_space s)))"

fun starts_with :: "jsstring \<Rightarrow> jsstring \<Rightarrow> bool" where
  \<comment> \<open>\<open>starts_with p s\<close>: the literal \<open>p\<close> matches at the start of \<open>s\<close>\<close>
  "starts_with [] s = True"
| "starts_with (p # ps) [] = False"
| "starts_with (p # ps) (c # cs) = (p = c \<and> starts_with ps cs)"

fun js_includes :: "jsstring \<Rightarrow> jsstring \<Rightarrow> bool" where
  \<comment> \<open>\<open>s.includes(p)\<close>\<close>
  "js_includes [] p = (p = [])"
| "js_includes (c # cs) p = (starts_with p (c # cs) \<or> js_includes cs p)"

definition parseInt :: "jsstring \<Rightarrow> nat" where
  \<comment> \<open>\<open>parseInt(ds, 10)\<close> on a non-empty run of decimal digits. The model is exact;
      JavaScript numbers are exact below \<open>2 ^ 53\<close>.\<close>
  "parseInt ds = foldl (\<lambda>a c. 10 * a + (c - 48)) 0 ds"

fun number_toString :: "nat \<Rightarrow> jsstring" where
  \<comment> \<open>the decimal digits a template literal prints for a non-negative integer\<close>
  "number_toString n =
     (if n < 10 then [48 + n] else number_toString (n div 10) @ [48 + n mod 10])"

declare number_toString.simps [simp del]

subsection \<open>The literals of the source\<close>

definition Canh :: jsstring where
  \<comment> \<open>the scene marker, with its trailing space\<close>
  "Canh = asc ''C'' @ [7843] @ asc ''nh ''"

definition NhanVat :: jsstring where
  \<comment> \<open>the character label\<close>
  "NhanVat = asc ''Nh'' @ [226] @ asc ''n v'' @ [7853] @ asc ''t:''"

definition PromptLabel :: jsstring where
  "PromptLabel = asc ''Prompt (C'' @ [226] @ asc ''u l'' @ [7879] @ asc ''nh ti'' @ [7871]
                 @ asc ''ng Anh):''"

definition ThoiLuong :: jsstring where
  \<comment> \<open>the duration label\<close>
  "ThoiLuong = asc ''Th'' @ [7901] @ asc ''i l'' @ [432] @ [7907] @ asc ''ng '' @ [7843]
               @ asc ''nh:''"

definition KenBurns :: jsstring where
  "KenBurns = asc ''Ken Burns Effect:''"

definition Khong :: jsstring where
  \<comment> \<open>the default character name\<close>
  "Khong = asc ''Kh'' @ [244] @ asc ''ng''"

definition speaking :: jsstring where
  \<comment> \<open>the placeholder that replaces dialogue\<close>
  "speaking = asc ''(nh'' @ [226] @ asc ''n v'' @ [7853] @ asc ''t '' @ [273] @ asc ''ang n''
              @ [243] @ asc ''i)''"

definition no_prompt_message :: jsstring where
  "no_prompt_message =
     asc ''Kh'' @ [244] @ asc ''ng t'' @ [236] @ asc ''m th'' @ [7845] @ asc ''y prompt h''
     @ [7907] @ asc ''p l'' @ [7879] @ asc '' n'' @ [224] @ asc ''o. Vui l'' @ [242]
     @ asc ''ng ki'' @ [7875] @ asc ''m tra '' @ [273] @ [7883] @ asc ''nh d'' @ [7841]
     @ asc ''ng '' @ [273] @ [7847] @ asc ''u v'' @ [224] @ asc ''o.''"

definition data_png :: jsstring where
  "data_png = asc ''data:image/png;base64,''"

definition data_image :: jsstring where
  "data_image = asc ''data:image''"

definition src_error :: jsstring where
  "src_error = asc ''error''"

definition src_cancelled :: jsstring where
  "src_cancelled = asc ''cancelled''"

section \<open>The data model (types.ts)\<close>

datatype AspectRatio = Ratio_1_1 | Ratio_4_3 | Ratio_16_9 | Ratio_9_16

record Character =
  c_id :: jsstring
  c_name :: jsstring
  c_imageBase64 :: jsstring
  c_mimeType :: jsstring

record Scene =
  prompt :: jsstring
  characterName :: jsstring
  fullText :: jsstring
  sceneNumber :: nat

record GeneratedImage =
  g_id :: jsstring
  g_prompt :: jsstring
  src :: jsstring
  isLoading :: bool
  characterRefId :: "jsstring option"
  isSelected :: bool
  sceneName :: jsstring
  sceneScript :: jsstring

section \<open>The script parser (parsePrompts)\<close>

text \<open>
  Each regular expression of the parser is written as the function that computes its
  match. \<open>header_at s\<close> is the match of \<open>/C\<dots>nh \d+:/\<close> anchored at the start of \<open>s\<close>:
  the digits of the group and the text after the colon. \<open>\d+\<close> is greedy and the colon
  is no digit, so the only candidate is the whole run of digits.
\<close>

definition header_at :: "jsstring \<Rightarrow> (jsstring \<times> jsstring) option" where
  "header_at s =
     (if starts_with Canh s then
        (let r = drop (length Canh) s;
             ds = takeWhile is_digit r;
             r' = dropWhile is_digit r
         in if ds \<noteq> [] \<and> r' \<noteq> [] \<and> hd r' = 58 then Some (ds, tl r') else None)
      else None)"

fun block_body :: "jsstring \<Rightarrow> jsstring" where
  \<comment> \<open>the lazy \<open>[\s\S]*?\<close> of sceneBlockRegex: the shortest text after which the
      lookahead holds, that is up to the next header or the end of the text\<close>
  "block_body [] = []"
| "block_body (c # cs) = (if header_at (c # cs) \<noteq> None then [] else c # block_body cs)"

function match_blocks :: "jsstring \<Rightarrow> jsstring list" where
  \<comment> \<open>\<open>text.match(sceneBlockRegex) || []\<close> with the \<open>g\<close> flag: every block, from a
      header to the next header or the end of the text, left to right\<close>
  "match_blocks [] = []"
| "match_blocks (c # cs) =
     (case header_at (c # cs) of
        None \<Rightarrow> match_blocks cs
      | Some (ds, rest) \<Rightarrow>
          (Canh @ ds @ [58] @ block_body rest)
          # match_blocks (drop (length (block_body rest)) rest))"
  by pat_completeness auto
termination
proof (relation "measure length")
  show "wf (measure length)" by simp
next
  fix c cs
  show "(cs, c # cs) \<in> measure length" by simp
next
  fix c cs x2 ds rest
  assume h: "header_at (c # cs) = Some x2" and p: "(ds, rest) = x2"
  let ?r = "drop (length Canh) (c # cs)"
  from h p have r: "rest = tl (dropWhile is_digit ?r)" and ne: "dropWhile is_digit ?r \<noteq> []"
    by (auto simp: header_at_def Let_def split: if_splits)
  have "length (dropWhile is_digit ?r) \<le> length ?r"
    by (rule length_dropWhile_le)
  with ne r have "length rest < length ?r"
    by (cases "dropWhile is_digit ?r") auto
  then show "(drop (length (block_body rest)) rest, c # cs) \<in> measure length"
    by simp
qed

fun sceneNumberMatch :: "jsstring \<Rightarrow> jsstring option" where
  \<comment> \<open>group 1 of \<open>block.match(sceneNumberRegex)\<close>: the digits of the leftmost header\<close>
  "sceneNumberMatch [] = None"
| "sceneNumberMatch (c # cs) =
     (case header_at (c # cs) of
        Some (ds, rest) \<Rightarrow> Some ds
      | None \<Rightarrow> sceneNumberMatch cs)"

fun find_literal :: "jsstring \<Rightarrow> jsstring \<Rightarrow> (jsstring \<times> jsstring) option" where
  \<comment> \<open>the leftmost occurrence of a literal: the text before it and the text after it\<close>
  "find_literal lbl [] = (if lbl = [] then Some ([], []) else None)"
| "find_literal lbl (c # cs) =
     (if starts_with lbl (c # cs) then Some ([], drop (length lbl) (c # cs))
      else (case find_literal lbl cs of
              None \<Rightarrow> None
            | Some (pre, post) \<Rightarrow> Some (c # pre, post)))"

definition prompt_stop :: "jsstring \<Rightarrow> bool" where
  \<comment> \<open>the lookahead of promptRegex; \<open>$\<close> has no \<open>m\<close> flag: the end of the input\<close>
  "prompt_stop s = (s = [] \<or> starts_with (10 # NhanVat) s \<or> starts_with (10 # ThoiLuong) s
                    \<or> starts_with (10 # KenBurns) s)"

fun lazy_prompt :: "jsstring \<Rightarrow> jsstring" where
  \<comment> \<open>the group \<open>([\s\S]*?)\<close> of promptRegex: the shortest text up to the lookahead\<close>
  "lazy_prompt [] = []"
| "lazy_prompt (c # cs) = (if prompt_stop (c # cs) then [] else c # lazy_prompt cs)"

definition promptMatch :: "jsstring \<Rightarrow> jsstring option" where
  \<comment> \<open>group 1 of \<open>block.match(promptRegex)\<close>. After the label the greedy \<open>\s*\<close> takes
      all the white space; the lazy group can always reach the end of the input, so the
      matcher never gives white space back and the leftmost label is the match.\<close>
  "promptMatch b =
     (case find_literal PromptLabel b of
        None \<Rightarrow> None
      | Some (pre, r) \<Rightarrow> Some (lazy_prompt (dropWhile is_space r)))"

definition character_tail :: "jsstring \<Rightarrow> jsstring option" where
  \<comment> \<open>\<open>\s*(.*?)(?:\n|$)\<close> anchored after the label. With all the white space taken the
      group runs to the first line terminator, which must be a line feed or the end. If
      it is not, the matcher gives white space back: the group can then only be empty,
      in front of a line feed inside that white space.\<close>
  "character_tail r =
     (let ws = takeWhile is_space r;
          r1 = dropWhile is_space r;
          g = takeWhile (\<lambda>c. \<not> is_line_terminator c) r1;
          r2 = dropWhile (\<lambda>c. \<not> is_line_terminator c) r1
      in if r2 = [] \<or> hd r2 = 10 then Some g
         else if 10 \<in> set ws then Some []
         else None)"

fun characterMatch :: "jsstring \<Rightarrow> jsstring option" where
  \<comment> \<open>group 1 of \<open>block.match(characterRegex)\<close>: the leftmost label where the rest of
      the expression matches\<close>
  "characterMatch [] = None"
| "characterMatch (c # cs) =
     (if starts_with NhanVat (c # cs) then
        (case character_tail (drop (length NhanVat) (c # cs)) of
           Some g \<Rightarrow> Some g
         | None \<Rightarrow> characterMatch cs)
      else characterMatch cs)"

definition scene_of_block :: "jsstring \<Rightarrow> jsstring \<Rightarrow> jsstring \<Rightarrow> Scene" where
  \<comment> \<open>the object pushed for a block, from the digits and the prompt group\<close>
  "scene_of_block b ds p =
     \<lparr> prompt = trim p,
       characterName = (case characterMatch b of
                          None \<Rightarrow> Khong
                        | Some g \<Rightarrow> if g \<noteq> [] then trim g else Khong),
       fullText = trim b,
       sceneNumber = parseInt ds \<rparr>"

fun parse_loop :: "jsstring list \<Rightarrow> Scene list \<Rightarrow> Scene list" where
  \<comment> \<open>the \<open>for \<dots> of sceneBlocks\<close> loop, with the array \<open>scenes\<close> it pushes to\<close>
  "parse_loop [] scenes = scenes"
| "parse_loop (b # bs) scenes =
     (case sceneNumberMatch b of
        None \<Rightarrow> parse_loop bs scenes
      | Some ds \<Rightarrow>
          (case promptMatch b of
             None \<Rightarrow> parse_loop bs scenes
           | Some p \<Rightarrow>
               if p \<noteq> [] then parse_loop bs (scenes @ [scene_of_block b ds p])
               else parse_loop bs scenes))"

definition parsePrompts :: "jsstring \<Rightarrow> Scene list" where
  "parsePrompts text = parse_loop (match_blocks text) []"

section \<open>Text transforms of the controller\<close>

definition quoted_at :: "nat \<Rightarrow> jsstring \<Rightarrow> jsstring option" where
  \<comment> \<open>\<open>/q[^q]{15,}q/\<close> anchored at the start, for a quote \<open>q\<close>: the text after the
      closing quote. The greedy class takes the whole run without a quote; giving some
      of it back cannot put a quote next.\<close>
  "quoted_at q s =
     (case s of
        [] \<Rightarrow> None
      | c # cs \<Rightarrow>
          if c = q then
            (let run = takeWhile (\<lambda>x. x \<noteq> q) cs;
                 r = dropWhile (\<lambda>x. x \<noteq> q) cs
             in if 15 \<le> length run \<and> r \<noteq> [] then Some (tl r) else None)
          else None)"

function replace_quoted :: "nat \<Rightarrow> jsstring \<Rightarrow> jsstring" where
  \<comment> \<open>\<open>s.replace(/q[^q]{15,}q/g, speaking)\<close>; the placeholder holds no \<open>$\<close>\<close>
  "replace_quoted q [] = []"
| "replace_quoted q (c # cs) =
     (case quoted_at q (c # cs) of
        Some r \<Rightarrow> speaking @ replace_quoted q r
      | None \<Rightarrow> c # replace_quoted q cs)"
  by pat_completeness auto
termination
proof (relation "measure (\<lambda>(q, s). length s)")
  show "wf (measure (\<lambda>(q, s). length s))" by simp
next
  fix q :: nat and c cs r
  assume h: "quoted_at q (c # cs) = Some r"
  then have r: "r = tl (dropWhile (\<lambda>x. x \<noteq> q) cs)"
    by (auto simp: quoted_at_def Let_def split: if_splits)
  have "length (dropWhile (\<lambda>x. x \<noteq> q) cs) \<le> length cs"
    by (rule length_dropWhile_le)
  with r show "((q, r), (q, c # cs)) \<in> measure (\<lambda>(q, s). length s)"
    by simp
next
  fix q :: nat and c cs
  show "((q, cs), (q, c # cs)) \<in> measure (\<lambda>(q, s). length s)" by simp
qed

definition removeDialogue :: "jsstring \<Rightarrow> jsstring" where
  \<comment> \<open>single quotes (39) first, then double quotes (34)\<close>
  "removeDialogue p = replace_quoted 34 (replace_quoted 39 p)"

fun before_header :: "jsstring \<Rightarrow> jsstring option" where
  \<comment> \<open>\<open>text.search(/C\<dots>nh \d+:/)\<close>: the text before the leftmost header\<close>
  "before_header [] = None"
| "before_header (c # cs) =
     (if header_at (c # cs) \<noteq> None then Some []
      else map_option ((#) c) (before_header cs))"

definition cleanStoryContext :: "jsstring \<Rightarrow> jsstring" where
  "cleanStoryContext text =
     (case before_header text of
        Some pre \<Rightarrow> trim pre
      | None \<Rightarrow> text)"

fun get_substitution :: "jsstring \<Rightarrow> jsstring \<Rightarrow> jsstring \<Rightarrow> jsstring \<Rightarrow> jsstring" where
  \<comment> \<open>the replacement text of \<open>String.prototype.replace\<close> for an expression without
      groups: \<open>$$\<close> is a dollar, \<open>$&\<close> the match, \<open>$`\<close> the text before it, \<open>$'\<close>
      the text after it; any other dollar stays\<close>
  "get_substitution matched pre post [] = []"
| "get_substitution matched pre post [c] = [c]"
| "get_substitution matched pre post (c # d # r) =
     (if c = 36 \<and> d = 36 then 36 # get_substitution matched pre post r
      else if c = 36 \<and> d = 38 then matched @ get_substitution matched pre post r
      else if c = 36 \<and> d = 96 then pre @ get_substitution matched pre post r
      else if c = 36 \<and> d = 39 then post @ get_substitution matched pre post r
      else c # get_substitution matched pre post (d # r))"

definition replace_prompt_field :: "jsstring \<Rightarrow> jsstring \<Rightarrow> jsstring" where
  \<comment> \<open>\<open>script.replace(/Prompt \<dots>:.*/s, `Prompt \<dots>: ${promptOverride}`)\<close>. With the
      \<open>s\<close> flag the greedy \<open>.*\<close> runs to the end of the script.\<close>
  "replace_prompt_field script promptOverride =
     (case find_literal PromptLabel script of
        None \<Rightarrow> script
      | Some (pre, rest) \<Rightarrow>
          pre @ get_substitution (PromptLabel @ rest) pre []
                     (PromptLabel @ [32] @ promptOverride))"

fun sceneNameMatch :: "jsstring \<Rightarrow> jsstring option" where
  \<comment> \<open>group 1 of \<open>sceneName.match(/C\<dots>nh (\d+)/)\<close>\<close>
  "sceneNameMatch [] = None"
| "sceneNameMatch (c # cs) =
     (if starts_with Canh (c # cs) \<and> takeWhile is_digit (drop (length Canh) (c # cs)) \<noteq> []
      then Some (takeWhile is_digit (drop (length Canh) (c # cs)))
      else sceneNameMatch cs)"

section \<open>Component state, the adapter and the event loop\<close>

text \<open>
  \<open>app\<close> holds the React state the handlers read and write. The cancellation flag
  \<open>isStoppingRef.current\<close> lives in the \<open>world\<close>, with the log of the suspension points
  of the controller: each \<open>await\<close> is one event, an adapter call (tagged with the index
  of the result it is made for) or a sleep.

  What happens during the \<open>k\<close>-th suspension is given by \<open>outcomes env k\<close>: whether
  handleStop ran meanwhile, and, for an adapter call, what generateImage resolved to
  (\<open>None\<close>: it threw). The flag is raised only by handleStop and lowered only at the
  start of a run. No other handler writes the store while a run is suspended.
\<close>

record call_args =
  a_prompt :: jsstring
  a_storyContext :: jsstring
  a_artStyle :: jsstring
  a_aspectRatio :: AspectRatio
  a_characterRef :: "Character option"
  a_previousImage :: "jsstring option"
  a_isVariant :: bool

datatype event = Call nat call_args | Sleep nat

record outcome =
  stop_pressed :: bool
  response :: "jsstring option"

record env =
  outcomes :: "nat \<Rightarrow> outcome"
  randomUUID :: "nat \<Rightarrow> jsstring"
  toLowerCase :: "jsstring \<Rightarrow> jsstring"

record world =
  trace :: "event list"
  isStopping :: bool

record app =
  storyContext :: jsstring
  artStyle :: jsstring
  promptsText :: jsstring
  aspectRatio :: AspectRatio
  batchSize :: nat
  characters :: "Character list"
  generatedImages :: "GeneratedImage list"
  isGenerating :: bool
  error :: "jsstring option"

definition generateImage :: "env \<Rightarrow> nat \<Rightarrow> call_args \<Rightarrow> world \<Rightarrow> jsstring option \<times> world" where
  \<comment> \<open>\<open>await generateImage(\<dots>)\<close> on behalf of result \<open>who\<close>\<close>
  "generateImage e who args w =
     (let out = outcomes e (length (trace w))
      in (response out,
          \<lparr> trace = trace w @ [Call who args],
            isStopping = (isStopping w \<or> stop_pressed out) \<rparr>))"

definition sleep :: "env \<Rightarrow> nat \<Rightarrow> world \<Rightarrow> world" where
  \<comment> \<open>\<open>await sleep(ms)\<close>\<close>
  "sleep e ms w =
     (let out = outcomes e (length (trace w))
      in \<lparr> trace = trace w @ [Sleep ms],
           isStopping = (isStopping w \<or> stop_pressed out) \<rparr>)"

definition sends_previous_part :: "call_args \<Rightarrow> bool" where
  \<comment> \<open>GeminiService: \<open>if (previousImageBase64)\<close> attaches the previous scene's image\<close>
  "sends_previous_part args =
     (case a_previousImage args of None \<Rightarrow> False | Some s \<Rightarrow> s \<noteq> [])"

definition map_index :: "('a \<Rightarrow> nat \<Rightarrow> 'b) \<Rightarrow> 'a list \<Rightarrow> 'b list" where
  \<comment> \<open>\<open>xs.map((x, index) => f(x, index))\<close>\<close>
  "map_index f xs = map (\<lambda>(index, x). f x index) (enumerate 0 xs)"

fun findIndex :: "('a \<Rightarrow> bool) \<Rightarrow> 'a list \<Rightarrow> nat option" where
  \<comment> \<open>\<open>None\<close> for \<open>-1\<close>\<close>
  "findIndex P [] = None"
| "findIndex P (x # xs) = (if P x then Some 0 else map_option Suc (findIndex P xs))"

datatype status = Pending | Succeeded | Failed | Cancelled

definition status_of :: "GeneratedImage \<Rightarrow> status" where
  \<comment> \<open>how a tile is rendered: spinner, failure with retry, cancelled, or the image\<close>
  "status_of img =
     (if isLoading img then Pending
      else if src img = src_error then Failed
      else if src img = src_cancelled then Cancelled
      else Succeeded)"

definition payload_of :: "GeneratedImage \<Rightarrow> jsstring option" where
  \<comment> \<open>the payload of a succeeded result\<close>
  "payload_of img = (if status_of img = Succeeded then Some (src img) else None)"

definition MAX_ATTEMPTS :: nat where
  "MAX_ATTEMPTS = 3"

definition api_args ::
    "app \<Rightarrow> jsstring \<Rightarrow> GeneratedImage \<Rightarrow> jsstring option \<Rightarrow> bool \<Rightarrow> call_args" where
  \<comment> \<open>the arguments of the call inside \<open>try\<close>, for the result \<open>img\<close>\<close>
  "api_args a cleanedStoryContext img referenceImage isVariant =
     \<lparr> a_prompt = removeDialogue (g_prompt img),
       a_storyContext = cleanedStoryContext,
       a_artStyle = artStyle a,
       a_aspectRatio = aspectRatio a,
       a_characterRef = (case characterRefId img of
                           None \<Rightarrow> None
                         | Some r \<Rightarrow> find (\<lambda>c. c_id c = r) (characters a)),
       a_previousImage = referenceImage,
       a_isVariant = isVariant \<rparr>"

function attempt_loop ::
    "env \<Rightarrow> nat \<Rightarrow> call_args \<Rightarrow> nat \<Rightarrow> bool \<times> jsstring option \<Rightarrow> world
     \<Rightarrow> (bool \<times> jsstring option) \<times> world" where
  \<comment> \<open>\<open>for (let attempt = 1; attempt <= MAX_ATTEMPTS && !success; attempt++)\<close> of
      handleGenerate and handleRegenerateAll; the state is \<open>(success, generatedBase64)\<close>\<close>
  "attempt_loop e who args attempt (success, generatedBase64) w =
     (if attempt \<le> MAX_ATTEMPTS \<and> \<not> success then
        (case generateImage e who args w of
           (Some b, w1) \<Rightarrow> attempt_loop e who args (attempt + 1) (True, Some b) w1
         | (None, w1) \<Rightarrow>
             attempt_loop e who args (attempt + 1) (success, generatedBase64)
               (if attempt < MAX_ATTEMPTS then sleep e 5000 w1 else w1))
      else ((success, generatedBase64), w))"
  by pat_completeness auto
termination
  by (relation "measure (\<lambda>(e, who, args, attempt, st, w). Suc MAX_ATTEMPTS - attempt)") auto

declare attempt_loop.simps [simp del]

section \<open>The full run (handleGenerate)\<close>

definition initialImages :: "env \<Rightarrow> app \<Rightarrow> Scene list \<Rightarrow> GeneratedImage list" where
  \<comment> \<open>\<open>scenes.map(scene => \<dots>)\<close>; the \<open>k\<close>-th result takes the \<open>k\<close>-th fresh identifier\<close>
  "initialImages e a scenes =
     map_index (\<lambda>scene k.
       \<lparr> g_id = randomUUID e k,
         g_prompt = prompt scene,
         src = [],
         isLoading = True,
         characterRefId =
           map_option c_id
             (find (\<lambda>c. js_includes (toLowerCase e (characterName scene))
                                     (toLowerCase e (c_name c)))
                   (characters a)),
         isSelected = False,
         sceneName = Canh @ number_toString (sceneNumber scene),
         sceneScript = fullText scene \<rparr>) scenes"

datatype 'a control = Break 'a | Continue 'a

type_synonym loop_state = "jsstring option list \<times> GeneratedImage list \<times> world"

definition mark_cancelled :: "nat \<Rightarrow> GeneratedImage list \<Rightarrow> GeneratedImage list" where
  \<comment> \<open>the updater of both cancellation branches of handleGenerate\<close>
  "mark_cancelled i currentImages =
     map_index (\<lambda>img index.
       if index \<ge> i then img\<lparr>isLoading := False, src := src_cancelled\<rparr> else img)
       currentImages"

definition generate_body ::
    "env \<Rightarrow> app \<Rightarrow> jsstring \<Rightarrow> GeneratedImage \<Rightarrow> nat \<Rightarrow> loop_state \<Rightarrow> loop_state control" where
  \<comment> \<open>one iteration of the scene loop for \<open>img = initialImages[i]\<close>. The loop state
      is the chain \<open>sceneImages\<close>, the store and the world. The store has one entry per
      scene throughout, so the write at index \<open>i\<close> is in range.\<close>
  "generate_body e a cleanedStoryContext img i st =
     (case st of (sceneImages, store, w) \<Rightarrow>
        if isStopping w then Break (sceneImages, mark_cancelled i store, w)
        else
          (let referenceImage = (if i > 0 then sceneImages ! (i - 1) else None);
               isVariant = False
           in case attempt_loop e i
                     (api_args a cleanedStoryContext img referenceImage isVariant)
                     1 (False, None) w of
                ((success, generatedBase64), w1) \<Rightarrow>
                  if isStopping w1 then Break (sceneImages, mark_cancelled i store, w1)
                  else if success \<and> generatedBase64 \<noteq> None \<and> generatedBase64 \<noteq> Some [] then
                    (let newSrc = data_png @ the generatedBase64
                     in Continue (sceneImages[i := Some newSrc],
                                  store[i := (store ! i)\<lparr>src := newSrc, isLoading := False\<rparr>],
                                  w1))
                  else
                    Continue (sceneImages[i := None],
                              store[i := (store ! i)\<lparr>src := src_error, isLoading := False\<rparr>],
                              w1)))"

function generate_loop ::
    "env \<Rightarrow> app \<Rightarrow> jsstring \<Rightarrow> GeneratedImage list \<Rightarrow> nat \<Rightarrow> loop_state \<Rightarrow> loop_state" where
  \<comment> \<open>\<open>for (let i = 0; i < initialImages.length; i++)\<close>\<close>
  "generate_loop e a cleanedStoryContext initial i st =
     (if i < length initial then
        (case generate_body e a cleanedStoryContext (initial ! i) i st of
           Break st' \<Rightarrow> st'
         | Continue st' \<Rightarrow> generate_loop e a cleanedStoryContext initial (i + 1) st')
      else st)"
  by pat_completeness auto
termination
  by (relation "measure (\<lambda>(e, a, c, initial, i, st). length initial - i)") auto

declare generate_loop.simps [simp del]

definition handleGenerate :: "env \<Rightarrow> app \<times> world \<Rightarrow> app \<times> world" where
  "handleGenerate e aw =
     (case aw of (a, w) \<Rightarrow>
        (let w0 = w\<lparr>isStopping := False\<rparr>;
             a0 = a\<lparr>isGenerating := True, error := None, generatedImages := []\<rparr>;
             cleanedStoryContext = cleanStoryContext (storyContext a);
             scenes = take (batchSize a) (parsePrompts (promptsText a))
         in if scenes = [] then
              (a0\<lparr>error := Some no_prompt_message, isGenerating := False\<rparr>, w0)
            else
              (let initial = initialImages e a scenes;
                   sceneImages = replicate (length scenes) None
               in case generate_loop e a cleanedStoryContext initial 0
                         (sceneImages, initial, w0) of
                    (sceneImages', store, w') \<Rightarrow>
                      (a0\<lparr>generatedImages := store, isGenerating := False\<rparr>, w'))))"

section \<open>Regenerate all (handleRegenerateAll)\<close>

definition reset_loading :: "nat \<Rightarrow> GeneratedImage list \<Rightarrow> GeneratedImage list" where
  \<comment> \<open>the updater of both cancellation branches of handleRegenerateAll\<close>
  "reset_loading i currentImages =
     map_index (\<lambda>img index. if index \<ge> i then img\<lparr>isLoading := False\<rparr> else img)
       currentImages"

definition regenerate_body ::
    "env \<Rightarrow> app \<Rightarrow> jsstring \<Rightarrow> GeneratedImage \<Rightarrow> nat \<Rightarrow> loop_state \<Rightarrow> loop_state control" where
  \<comment> \<open>one iteration for \<open>img = originalImages[i]\<close>; the chain is \<open>newImageSrcs\<close>\<close>
  "regenerate_body e a cleanedStoryContext img i st =
     (case st of (newImageSrcs, store, w) \<Rightarrow>
        if isStopping w then Break (newImageSrcs, reset_loading i store, w)
        else
          (let referenceImage = (if i > 0 then newImageSrcs ! (i - 1) else None);
               isVariant = True
           in case attempt_loop e i
                     (api_args a cleanedStoryContext img referenceImage isVariant)
                     1 (False, None) w of
                ((success, generatedBase64), w1) \<Rightarrow>
                  if isStopping w1 then Break (newImageSrcs, reset_loading i store, w1)
                  else if success \<and> generatedBase64 \<noteq> None \<and> generatedBase64 \<noteq> Some [] then
                    (let newSrc = data_png @ the generatedBase64
                     in Continue (newImageSrcs[i := Some newSrc],
                                  (if i < length store
                                   then store[i := (store ! i)\<lparr>src := newSrc, isLoading := False\<rparr>]
                                   else store),
                                  w1))
                  else
                    Continue (newImageSrcs[i := Some src_error],
                              (if i < length store
                               then store[i := (store ! i)\<lparr>src := src_error, isLoading := False\<rparr>]
                               else store),
                              w1)))"

function regenerate_loop ::
    "env \<Rightarrow> app \<Rightarrow> jsstring \<Rightarrow> GeneratedImage list \<Rightarrow> nat \<Rightarrow> loop_state \<Rightarrow> loop_state" where
  \<comment> \<open>\<open>for (let i = 0; i < originalImages.length; i++)\<close>\<close>
  "regenerate_loop e a cleanedStoryContext originalImages i st =
     (if i < length originalImages then
        (case regenerate_body e a cleanedStoryContext (originalImages ! i) i st of
           Break st' \<Rightarrow> st'
         | Continue st' \<Rightarrow> regenerate_loop e a cleanedStoryContext originalImages (i + 1) st')
      else st)"
  by pat_completeness auto
termination
  by (relation "measure (\<lambda>(e, a, c, originalImages, i, st). length originalImages - i)") auto

declare regenerate_loop.simps [simp del]

definition handleRegenerateAll :: "env \<Rightarrow> app \<times> world \<Rightarrow> app \<times> world" where
  "handleRegenerateAll e aw =
     (case aw of (a, w) \<Rightarrow>
        if isGenerating a \<or> generatedImages a = [] then (a, w)
        else
          (let w0 = w\<lparr>isStopping := False\<rparr>;
               a0 = a\<lparr>isGenerating := True, error := None\<rparr>;
               cleanedStoryContext = cleanStoryContext (storyContext a);
               originalImages = generatedImages a;
               store0 = map (\<lambda>img. img\<lparr>isLoading := True\<rparr>) (generatedImages a);
               newImageSrcs =
                 map (\<lambda>img. if starts_with data_image (src img) then Some (src img) else None)
                     originalImages
           in case regenerate_loop e a cleanedStoryContext originalImages 0
                     (newImageSrcs, store0, w0) of
                (newImageSrcs', store, w') \<Rightarrow>
                  (a0\<lparr>generatedImages := store, isGenerating := False\<rparr>, w')))"

section \<open>Regenerate one result (handleRegenerate)\<close>

definition regen_reference :: "app \<Rightarrow> GeneratedImage \<Rightarrow> jsstring option" where
  \<comment> \<open>the continuity reference: the payload of the first result in the store whose
      label starts with the label of the scene parsed just before the target and whose
      \<open>src\<close> is neither empty nor \<open>error\<close>\<close>
  "regen_reference a imageToRegen =
     (case sceneNameMatch (sceneName imageToRegen) of
        None \<Rightarrow> None
      | Some ds \<Rightarrow>
          (let scenes = parsePrompts (promptsText a)
           in case findIndex (\<lambda>s. sceneNumber s = parseInt ds) scenes of
                None \<Rightarrow> None
              | Some currentSceneIndex \<Rightarrow>
                  if currentSceneIndex > 0 then
                    (let prevSceneInfo = scenes ! (currentSceneIndex - 1)
                     in case find (\<lambda>img.
                                 starts_with (Canh @ number_toString (sceneNumber prevSceneInfo))
                                             (sceneName img)
                                 \<and> src img \<noteq> [] \<and> src img \<noteq> src_error)
                               (generatedImages a) of
                          None \<Rightarrow> None
                        | Some prevSceneImage \<Rightarrow> Some (src prevSceneImage))
                  else None))"

definition regen_success ::
    "jsstring \<Rightarrow> GeneratedImage \<Rightarrow> jsstring \<Rightarrow> jsstring option \<Rightarrow> jsstring
     \<Rightarrow> GeneratedImage list \<Rightarrow> GeneratedImage list" where
  \<comment> \<open>the updater after a successful call\<close>
  "regen_success imageId imageToRegen finalPrompt promptOverride imageBase64 prev =
     map (\<lambda>img.
       if g_id img = imageId then
         img\<lparr> src := data_png @ imageBase64,
              isLoading := False,
              g_prompt := finalPrompt,
              sceneScript :=
                (case promptOverride of
                   None \<Rightarrow> sceneScript imageToRegen
                 | Some p \<Rightarrow>
                     if p \<noteq> [] then replace_prompt_field (sceneScript imageToRegen) p
                     else sceneScript imageToRegen) \<rparr>
       else img) prev"

definition regen_failure :: "jsstring \<Rightarrow> GeneratedImage list \<Rightarrow> GeneratedImage list" where
  \<comment> \<open>the updater after the last failed attempt\<close>
  "regen_failure imageId prev =
     map (\<lambda>img. if g_id img = imageId then img\<lparr>src := src_error, isLoading := False\<rparr> else img)
       prev"

function regen_attempt_loop ::
    "env \<Rightarrow> nat \<Rightarrow> call_args \<Rightarrow> (jsstring \<Rightarrow> GeneratedImage list \<Rightarrow> GeneratedImage list)
     \<Rightarrow> (GeneratedImage list \<Rightarrow> GeneratedImage list)
     \<Rightarrow> nat \<Rightarrow> bool \<Rightarrow> GeneratedImage list \<times> world \<Rightarrow> GeneratedImage list \<times> world" where
  \<comment> \<open>the attempt loop of handleRegenerate, which writes the store itself; \<open>on_success\<close>
      and \<open>on_failure\<close> are the two updaters\<close>
  "regen_attempt_loop e who args on_success on_failure attempt success sw =
     (case sw of (store, w) \<Rightarrow>
        if attempt \<le> MAX_ATTEMPTS \<and> \<not> success then
          (case generateImage e who args w of
             (Some imageBase64, w1) \<Rightarrow>
               regen_attempt_loop e who args on_success on_failure (attempt + 1) True
                 (on_success imageBase64 store, w1)
           | (None, w1) \<Rightarrow>
               if attempt = MAX_ATTEMPTS then
                 regen_attempt_loop e who args on_success on_failure (attempt + 1) success
                   (on_failure store, w1)
               else
                 regen_attempt_loop e who args on_success on_failure (attempt + 1) success
                   (store, sleep e 5000 w1))
        else (store, w))"
  by pat_completeness auto
termination
  by (relation "measure (\<lambda>(e, who, args, f, g, attempt, s, sw). Suc MAX_ATTEMPTS - attempt)")
     auto

declare regen_attempt_loop.simps [simp del]

definition handleRegenerate ::
    "env \<Rightarrow> jsstring \<Rightarrow> jsstring option \<Rightarrow> app \<times> world \<Rightarrow> app \<times> world" where
  "handleRegenerate e imageId promptOverride aw =
     (case aw of (a, w) \<Rightarrow>
        (case findIndex (\<lambda>img. g_id img = imageId) (generatedImages a) of
           None \<Rightarrow> (a, w)
         | Some imageIndex \<Rightarrow>
             (let imageToRegen = generatedImages a ! imageIndex;
                  store0 = map (\<lambda>img. if g_id img = imageId then img\<lparr>isLoading := True\<rparr> else img)
                               (generatedImages a);
                  cleanedStoryContext = cleanStoryContext (storyContext a);
                  referenceImage = regen_reference a imageToRegen;
                  isVariant = True;
                  finalPrompt = (case promptOverride of
                                   Some p \<Rightarrow> p
                                 | None \<Rightarrow> g_prompt imageToRegen);
                  args = (api_args a cleanedStoryContext imageToRegen referenceImage isVariant)
                           \<lparr>a_prompt := removeDialogue finalPrompt\<rparr>
              in case regen_attempt_loop e imageIndex args
                        (regen_success imageId imageToRegen finalPrompt promptOverride)
                        (regen_failure imageId)
                        1 False (store0, w) of
                   (store, w') \<Rightarrow> (a\<lparr>generatedImages := store\<rparr>, w'))))"

section \<open>Properties of scripts and results, as the specification words them\<close>

text \<open>
  A block has a header when the scene marker, a run of digits and a colon occur in it;
  it has a prompt field when the prompt label occurs in it with text after it that is
  not all white space.
\<close>

definition has_header :: "jsstring \<Rightarrow> bool" where
  "has_header b \<longleftrightarrow>
     (\<exists>pre ds rest. b = pre @ Canh @ ds @ 58 # rest \<and> ds \<noteq> [] \<and> list_all is_digit ds)"

definition has_prompt_field :: "jsstring \<Rightarrow> bool" where
  "has_prompt_field b \<longleftrightarrow>
     (\<exists>pre rest. b = pre @ PromptLabel @ rest \<and> (\<exists>c \<in> set rest. \<not> is_space c))"

definition parsed_scene :: "jsstring \<Rightarrow> Scene" where
  "parsed_scene b = scene_of_block b (the (sceneNumberMatch b)) (the (promptMatch b))"

text \<open>
  The retry policy in the specification's words: call the adapter; on failure retry, up
  to three attempts in all, waiting five seconds between attempts; a success ends the
  attempts. \<open>retry_policy\<close> takes what the first, second and third attempt would answer
  and gives the number of invocations made and the payload obtained, if any.
  \<open>retry_trace\<close> is the log of \<open>k\<close> invocations with one wait between consecutive ones,
  and \<open>after_attempts\<close> the world they leave: cancellation is requested if it was
  before, or during one of those \<open>2 * k - 1\<close> suspensions.
\<close>

definition retry_policy ::
    "jsstring option \<Rightarrow> jsstring option \<Rightarrow> jsstring option \<Rightarrow> nat \<times> jsstring option" where
  "retry_policy r1 r2 r3 =
     (case r1 of
        Some b \<Rightarrow> (1, Some b)
      | None \<Rightarrow> (case r2 of Some b \<Rightarrow> (2, Some b) | None \<Rightarrow> (3, r3)))"

definition retry_trace :: "nat \<Rightarrow> call_args \<Rightarrow> nat \<Rightarrow> event list" where
  "retry_trace who args k =
     concat (replicate (k - 1) [Call who args, Sleep 5000]) @ [Call who args]"

definition after_attempts :: "env \<Rightarrow> nat \<Rightarrow> call_args \<Rightarrow> nat \<Rightarrow> world \<Rightarrow> world" where
  "after_attempts e who args k w =
     \<lparr> trace = trace w @ retry_trace who args k,
       isStopping = (isStopping w
         \<or> list_ex (\<lambda>j. stop_pressed (outcomes e (length (trace w) + j))) [0..<2 * k - 1]) \<rparr>"

definition attempts_of :: "env \<Rightarrow> world \<Rightarrow> nat \<times> jsstring option" where
  \<comment> \<open>the policy applied to the answers the adapter gives from the world \<open>w\<close> on\<close>
  "attempts_of e w =
     retry_policy (response (outcomes e (length (trace w))))
                  (response (outcomes e (length (trace w) + 2)))
                  (response (outcomes e (length (trace w) + 4)))"

definition settled_src :: "jsstring option \<Rightarrow> jsstring" where
  \<comment> \<open>what the scene loops of the full run and of regenerate-all store for the payload
      the attempts obtained: the PNG data URI of a non-empty payload, the failure marker
      when there is none or it is empty\<close>
  "settled_src p =
     (case p of
        Some b \<Rightarrow> if b \<noteq> [] then data_png @ b else src_error
      | None \<Rightarrow> src_error)"

text \<open>
  Two results are the same but for their status when they agree on everything except
  \<open>src\<close> and \<open>isLoading\<close>, the two fields that carry the status and the payload.
\<close>

definition same_but_status :: "GeneratedImage \<Rightarrow> GeneratedImage \<Rightarrow> bool" where
  "same_but_status r r' \<longleftrightarrow>
     g_id r' = g_id r \<and> g_prompt r' = g_prompt r \<and> characterRefId r' = characterRefId r
     \<and> isSelected r' = isSelected r \<and> sceneName r' = sceneName r
     \<and> sceneScript r' = sceneScript r"

section \<open>Concrete scripts and runs\<close>


text \<open>
  \<open>prompt_block k\<close> is the shortest valid block for scene \<open>k\<close>: the header and the
  prompt field with the prompt \<open>a\<close>. \<open>no_marker\<close> holds of a text in which the first
  two code units of the scene marker do not occur: no header starts inside it.
\<close>

definition prompt_block :: "nat \<Rightarrow> jsstring" where
  "prompt_block k = Canh @ number_toString k @ 58 # PromptLabel @ asc ''a''"

fun no_marker :: "jsstring \<Rightarrow> bool" where
  "no_marker [] = True"
| "no_marker [c] = (c \<noteq> 67)"
| "no_marker (c # d # r) = (\<not> (c = 67 \<and> d = 7843) \<and> no_marker (d # r))"

definition script_eleven :: jsstring where
  "script_eleven = concat (map prompt_block [1..<12])"

definition script_two :: jsstring where
  "script_two = prompt_block 1 @ [10] @ prompt_block 2"

definition idle :: world where
  "idle = \<lparr> trace = [], isStopping = False \<rparr>"

definition scripted :: "jsstring option list \<Rightarrow> nat list \<Rightarrow> nat \<Rightarrow> outcome" where
  \<comment> \<open>the answers of the adapter by suspension index (a throw where the list ends), and
      the suspensions during which the user presses stop\<close>
  "scripted answers stops k =
     \<lparr> stop_pressed = (k \<in> set stops),
       response = (if k < length answers then answers ! k else None) \<rparr>"

definition env_of :: "(nat \<Rightarrow> outcome) \<Rightarrow> env" where
  "env_of f =
     \<lparr> outcomes = f,
       randomUUID = (\<lambda>k. asc ''id'' @ number_toString k),
       toLowerCase = (\<lambda>s. s) \<rparr>"

definition app_of :: "jsstring \<Rightarrow> GeneratedImage list \<Rightarrow> app" where
  \<comment> \<open>the component state with a script and a store, no characters, the default batch\<close>
  "app_of script store =
     \<lparr> storyContext = [], artStyle = [], promptsText = script, aspectRatio = Ratio_16_9,
       batchSize = 10, characters = [], generatedImages = store, isGenerating = False,
       error = None \<rparr>"

definition result_of :: "nat \<Rightarrow> jsstring \<Rightarrow> GeneratedImage" where
  \<comment> \<open>a settled result of scene \<open>n\<close> with the given \<open>src\<close>\<close>
  "result_of n s =
     \<lparr> g_id = asc ''id'' @ number_toString n, g_prompt = asc ''a'', src = s,
       isLoading = False, characterRefId = None, isSelected = False,
       sceneName = Canh @ number_toString n, sceneScript = prompt_block n \<rparr>"

text \<open>A full run over two scenes in which both adapter calls succeed at once.\<close>

definition run_two_ok :: "app \<times> world" where
  "run_two_ok =
     handleGenerate (env_of (scripted [Some (asc ''P''), Some (asc ''Q'')] []))
       (app_of script_two [], idle)"

text \<open>
  A component whose script has no scene and whose store holds a result of an earlier
  run, and one whose script has eleven scenes.
\<close>

definition app_stale :: app where
  "app_stale = app_of (asc ''no scenes here'') [result_of 1 (data_png @ asc ''P'')]"

definition app_eleven :: app where
  "app_eleven = app_of script_eleven []"

text \<open>
  A run of three scenes whose first scene has succeeded, with the adapter about to fail
  once for the second scene and the user pressing stop during the wait that follows.
\<close>

definition pending_of :: "nat \<Rightarrow> GeneratedImage" where
  "pending_of n = (result_of n [])\<lparr>isLoading := True\<rparr>"

definition store_three :: "GeneratedImage list" where
  "store_three = [result_of 1 (data_png @ asc ''P''), pending_of 2, pending_of 3]"

definition initial_three :: "GeneratedImage list" where
  "initial_three = [pending_of 1, pending_of 2, pending_of 3]"

definition env_stop_in_wait :: env where
  \<comment> \<open>the first call throws, stop is pressed during the wait, the second call succeeds\<close>
  "env_stop_in_wait = env_of (scripted [None, None, Some (asc ''Q'')] [1])"

definition run_regen_stopped :: "app \<times> world" where
  \<comment> \<open>regenerate all over one failed result; stop is pressed during the first call,
      which succeeds\<close>
  "run_regen_stopped =
     handleRegenerateAll (env_of (scripted [Some (asc ''Q'')] [0]))
       (app_of (prompt_block 1) [result_of 1 src_error], idle)"

text \<open>Runs and stores for the retry policy and for the single-scene regeneration.\<close>

definition script_one :: jsstring where
  "script_one = prompt_block 1"

definition run_empty_payload :: "app \<times> world" where
  \<comment> \<open>a full run over one scene whose first adapter call returns an empty payload\<close>
  "run_empty_payload =
     handleGenerate (env_of (scripted [Some []] [])) (app_of script_one [], idle)"

definition run_regen_first_fails :: "app \<times> world" where
  \<comment> \<open>regenerate all over two succeeded results; the three attempts of the first scene
      throw, the call of the second scene succeeds\<close>
  "run_regen_first_fails =
     handleRegenerateAll (env_of (scripted [None, None, None, None, None, Some (asc ''Q'')] []))
       (app_of script_two
          [result_of 1 (data_png @ asc ''P''), result_of 2 (data_png @ asc ''R'')], idle)"

definition env_third_succeeds :: env where
  \<comment> \<open>the adapter throws twice and answers the third call\<close>
  "env_third_succeeds = env_of (scripted [None, None, None, None, Some (asc ''Q'')] [])"

definition call_plain :: "bool \<Rightarrow> call_args" where
  \<comment> \<open>the call for the prompt \<open>a\<close> with no reference at all\<close>
  "call_plain isVariant =
     \<lparr> a_prompt = asc ''a'', a_storyContext = [], a_artStyle = [], a_aspectRatio = Ratio_16_9,
       a_characterRef = None, a_previousImage = None, a_isVariant = isVariant \<rparr>"

definition script_swapped :: jsstring where
  \<comment> \<open>the two scenes of \<open>script_two\<close> with scene 2 moved in front of scene 1\<close>
  "script_swapped = prompt_block 2 @ [10] @ prompt_block 1"

definition app_cancelled_predecessor :: app where
  \<comment> \<open>the store a full run over \<open>script_two\<close> leaves when it is cancelled during scene 2:
      result 1 succeeded, result 2 cancelled; the script has since been edited\<close>
  "app_cancelled_predecessor =
     app_of script_swapped [result_of 1 (data_png @ asc ''P''), result_of 2 src_cancelled]"

definition script_with_character :: jsstring where
  \<comment> \<open>a scene script with a character field after the prompt field\<close>
  "script_with_character =
     Canh @ asc ''1:'' @ [10] @ PromptLabel @ asc '' old'' @ [10] @ NhanVat @ asc '' An''"

definition app_with_character :: app where
  "app_with_character =
     app_of script_with_character
       [(result_of 1 (data_png @ asc ''P''))\<lparr>sceneScript := script_with_character\<rparr>]"

section \<open>Facts about the parser\<close>

lemma starts_with_iff: "starts_with p s \<longleftrightarrow> (\<exists>t. s = p @ t)"
  by (induction p s rule: starts_with.induct) auto

lemma not_digit_colon: "\<not> is_digit 58"
  by (simp add: is_digit_def)

lemma is_space_nl: "is_space 10"
  by (simp add: is_space_def)

lemma header_at_Some_iff:
  "header_at s = Some (ds, rest) \<longleftrightarrow>
     s = Canh @ ds @ 58 # rest \<and> ds \<noteq> [] \<and> list_all is_digit ds"
proof
  assume h: "header_at s = Some (ds, rest)"
  then obtain t where s: "s = Canh @ t"
    by (auto simp: header_at_def starts_with_iff split: if_splits)
  from h s have ds: "ds = takeWhile is_digit t" and ne: "ds \<noteq> []"
    and r: "dropWhile is_digit t \<noteq> []" "hd (dropWhile is_digit t) = 58"
    "rest = tl (dropWhile is_digit t)"
    by (auto simp: header_at_def Let_def split: if_splits)
  from r have "dropWhile is_digit t = 58 # rest"
    by (cases "dropWhile is_digit t") auto
  with ds have "t = ds @ 58 # rest"
    using takeWhile_dropWhile_id[of is_digit t] by simp
  moreover from ds have "list_all is_digit ds"
    by (auto simp: list_all_iff dest: set_takeWhileD)
  ultimately show "s = Canh @ ds @ 58 # rest \<and> ds \<noteq> [] \<and> list_all is_digit ds"
    using s ne by simp
next
  assume a: "s = Canh @ ds @ 58 # rest \<and> ds \<noteq> [] \<and> list_all is_digit ds"
  then have tw: "takeWhile is_digit (ds @ 58 # rest) = ds"
    and dw: "dropWhile is_digit (ds @ 58 # rest) = 58 # rest"
    by (simp_all add: list_all_iff takeWhile_append2 dropWhile_append2 not_digit_colon)
  from a have s: "s = Canh @ ds @ 58 # rest" and ne: "ds \<noteq> []"
    by simp_all
  show "header_at s = Some (ds, rest)"
    unfolding s by (simp add: header_at_def starts_with_iff tw dw ne not_digit_colon)
qed

lemma sceneNumberMatch_iff: "sceneNumberMatch b \<noteq> None \<longleftrightarrow> has_header b"
proof (induction b)
  case Nil
  show ?case by (simp add: has_header_def)
next
  case (Cons c cs)
  show ?case
  proof (cases "header_at (c # cs)")
    case (Some p)
    obtain ds rest where p: "p = (ds, rest)" by (cases p)
    with Some have "c # cs = [] @ Canh @ ds @ 58 # rest \<and> ds \<noteq> [] \<and> list_all is_digit ds"
      by (simp add: header_at_Some_iff)
    then have "has_header (c # cs)"
      unfolding has_header_def by blast
    with Some p show ?thesis by simp
  next
    case None
    have "has_header (c # cs) \<longleftrightarrow> has_header cs"
    proof
      assume "has_header (c # cs)"
      then obtain pre ds rest where e: "c # cs = pre @ Canh @ ds @ 58 # rest"
        and d: "ds \<noteq> []" "list_all is_digit ds"
        unfolding has_header_def by blast
      show "has_header cs"
      proof (cases pre)
        case Nil
        with e d have "header_at (c # cs) = Some (ds, rest)"
          by (simp add: header_at_Some_iff)
        with None show ?thesis by simp
      next
        case (Cons x xs)
        with e have "cs = xs @ Canh @ ds @ 58 # rest" by simp
        with d show ?thesis unfolding has_header_def by blast
      qed
    next
      assume "has_header cs"
      then obtain pre ds rest where "cs = pre @ Canh @ ds @ 58 # rest"
        "ds \<noteq> []" "list_all is_digit ds"
        unfolding has_header_def by blast
      then have "c # cs = (c # pre) @ Canh @ ds @ 58 # rest \<and> ds \<noteq> [] \<and> list_all is_digit ds"
        by simp
      then show "has_header (c # cs)" unfolding has_header_def by blast
    qed
    with None Cons.IH show ?thesis by simp
  qed
qed

lemma find_literal_Some: "find_literal lbl s = Some (pre, post) \<Longrightarrow> s = pre @ lbl @ post"
proof (induction s arbitrary: pre)
  case Nil
  then show ?case by (simp split: if_splits)
next
  case (Cons c cs)
  show ?case
  proof (cases "starts_with lbl (c # cs)")
    case True
    with Cons.prems have "pre = []" "post = drop (length lbl) (c # cs)" by simp_all
    moreover from True obtain t where "c # cs = lbl @ t" by (auto simp: starts_with_iff)
    ultimately show ?thesis by simp
  next
    case False
    with Cons.prems obtain pre' where f: "find_literal lbl cs = Some (pre', post)"
      and p: "pre = c # pre'"
      by (auto split: option.splits)
    from Cons.IH[OF f] p show ?thesis by simp
  qed
qed

lemma find_literal_leftmost:
  "s = pre' @ lbl @ post' \<Longrightarrow>
     \<exists>pre post. find_literal lbl s = Some (pre, post) \<and> length post' \<le> length post"
proof (induction s arbitrary: pre')
  case Nil
  then show ?case by simp
next
  case (Cons c cs)
  show ?case
  proof (cases "starts_with lbl (c # cs)")
    case True
    have "length post' \<le> length (c # cs) - length lbl"
      using arg_cong[OF Cons.prems, of length] by simp
    with True show ?thesis by simp
  next
    case False
    with Cons.prems have "pre' \<noteq> []"
      by (auto simp: starts_with_iff)
    then obtain x xs where x: "pre' = x # xs" by (cases pre') auto
    with Cons.prems have "cs = xs @ lbl @ post'" by simp
    from Cons.IH[OF this] obtain pre post where
      "find_literal lbl cs = Some (pre, post)" "length post' \<le> length post" by blast
    with False show ?thesis by simp
  qed
qed

lemma suffix_set:
  assumes "a @ r = b @ r'" and "length r' \<le> length r"
  shows "set r' \<subseteq> set r"
proof -
  have len: "length a + length r = length b + length r'"
    using arg_cong[OF assms(1), of length] by simp
  have "r' = drop (length b) (b @ r')" by simp
  also have "\<dots> = drop (length b) (a @ r)" using assms(1) by simp
  also have "\<dots> = drop (length b - length a) r" using len assms(2) by simp
  finally show ?thesis by (metis set_drop_subset)
qed


lemma lazy_prompt_keeps: "\<not> is_space c \<Longrightarrow> lazy_prompt (c # cs) = c # lazy_prompt cs"
proof -
  assume "\<not> is_space c"
  with is_space_nl have "c \<noteq> 10" by auto
  then show ?thesis by (simp add: prompt_stop_def)
qed

lemma dropWhile_space_cases:
  obtains "dropWhile is_space r = []" and "\<forall>c\<in>set r. is_space c"
  | c cs where "dropWhile is_space r = c # cs" and "\<not> is_space c" and "c \<in> set r"
proof (cases "dropWhile is_space r")
  case Nil
  then show ?thesis using that(1) by (simp add: dropWhile_eq_Nil_conv)
next
  case (Cons c cs)
  then have "\<not> is_space c" by (metis hd_dropWhile list.sel(1) list.distinct(1))
  moreover have "c \<in> set r"
    using Cons by (metis list.set_intros(1) set_dropWhileD)
  ultimately show ?thesis using Cons that(2) by blast
qed

lemma promptMatch_group:
  assumes "promptMatch b = Some p" and "p \<noteq> []"
  shows "\<not> is_space (hd p) \<and> has_prompt_field b"
proof -
  from assms(1) obtain pre r where f: "find_literal PromptLabel b = Some (pre, r)"
    and p: "p = lazy_prompt (dropWhile is_space r)"
    by (auto simp: promptMatch_def split: option.splits)
  have b: "b = pre @ PromptLabel @ r" by (rule find_literal_Some[OF f])
  show ?thesis
  proof (cases r rule: dropWhile_space_cases)
    case 1
    with p assms(2) show ?thesis by simp
  next
    case (2 c cs)
    with p have "hd p = c" using lazy_prompt_keeps[of c cs] by simp
    with 2 b show ?thesis unfolding has_prompt_field_def by blast
  qed
qed

lemma has_prompt_field_match:
  assumes "has_prompt_field b"
  shows "\<exists>p. promptMatch b = Some p \<and> p \<noteq> []"
proof -
  from assms obtain pre' rest' c where b: "b = pre' @ PromptLabel @ rest'"
    and c: "c \<in> set rest'" "\<not> is_space c"
    unfolding has_prompt_field_def by blast
  from find_literal_leftmost[OF b] obtain pre r where
    f: "find_literal PromptLabel b = Some (pre, r)" and len: "length rest' \<le> length r"
    by blast
  have "b = pre @ PromptLabel @ r" by (rule find_literal_Some[OF f])
  with b have "(pre @ PromptLabel) @ r = (pre' @ PromptLabel) @ rest'" by simp
  from suffix_set[OF this len] c have cr: "c \<in> set r" by blast
  show ?thesis
  proof (cases r rule: dropWhile_space_cases)
    case 1
    with cr c(2) show ?thesis by blast
  next
    case (2 x xs)
    with f show ?thesis using lazy_prompt_keeps[of x xs] by (simp add: promptMatch_def)
  qed
qed

lemma promptMatch_iff: "has_prompt_field b \<longleftrightarrow> (\<exists>p. promptMatch b = Some p \<and> p \<noteq> [])"
  using promptMatch_group has_prompt_field_match by blast



lemma parse_loop_filter:
  "parse_loop bs acc =
     acc @ map parsed_scene (filter (\<lambda>b. has_header b \<and> has_prompt_field b) bs)"
proof (induction bs arbitrary: acc)
  case Nil
  show ?case by simp
next
  case (Cons b bs)
  show ?case
  proof (cases "sceneNumberMatch b")
    case None
    then have "\<not> has_header b" using sceneNumberMatch_iff[of b] by simp
    with None Cons.IH show ?thesis by simp
  next
    case (Some ds)
    then have hh: "has_header b" using sceneNumberMatch_iff[of b] by simp
    show ?thesis
    proof (cases "has_prompt_field b")
      case True
      then obtain p where p: "promptMatch b = Some p" "p \<noteq> []"
        using promptMatch_iff by blast
      with Some hh True Cons.IH show ?thesis by (simp add: parsed_scene_def)
    next
      case False
      then have "promptMatch b = None \<or> promptMatch b = Some []"
        using promptMatch_iff[of b] by (cases "promptMatch b") auto
      with Some hh False Cons.IH show ?thesis by auto
    qed
  qed
qed

lemmas literal_defs =
  asc_def Canh_def NhanVat_def PromptLabel_def ThoiLuong_def KenBurns_def Khong_def

lemmas parser_defs =
  parsePrompts_def header_at_def promptMatch_def prompt_stop_def scene_of_block_def
  character_tail_def parseInt_def trim_def is_digit_def is_space_def is_line_terminator_def



section \<open>Facts about the controller\<close>

lemma add_4_eq_Suc: "(n::nat) + 4 = Suc (Suc (Suc (Suc n)))"
  by simp

lemma attempt_loop_policy:
  "attempt_loop e who args 1 (False, None) w =
     ((snd (attempts_of e w) \<noteq> None, snd (attempts_of e w)),
      after_attempts e who args (fst (attempts_of e w)) w)"
  by (simp add: attempt_loop.simps
        attempts_of_def retry_policy_def after_attempts_def retry_trace_def
        generateImage_def sleep_def MAX_ATTEMPTS_def Let_def numeral_2_eq_2 numeral_3_eq_3
        add_4_eq_Suc
        split: option.splits)

lemma regen_attempt_loop_policy:
  "regen_attempt_loop e who args f g 1 False (store, w) =
     ((case snd (attempts_of e w) of Some b \<Rightarrow> f b store | None \<Rightarrow> g store),
      after_attempts e who args (fst (attempts_of e w)) w)"
  by (simp add: regen_attempt_loop.simps
        attempts_of_def retry_policy_def after_attempts_def retry_trace_def
        generateImage_def sleep_def MAX_ATTEMPTS_def Let_def numeral_2_eq_2 numeral_3_eq_3
        add_4_eq_Suc
        split: option.splits)

lemma attempt_loop_policy_Suc:
  "attempt_loop e who args (Suc 0) (False, None) w =
     ((snd (attempts_of e w) \<noteq> None, snd (attempts_of e w)),
      after_attempts e who args (fst (attempts_of e w)) w)"
  using attempt_loop_policy[of e who args w] by simp

lemma regen_attempt_loop_policy_Suc:
  "regen_attempt_loop e who args f g (Suc 0) False (store, w) =
     ((case snd (attempts_of e w) of Some b \<Rightarrow> f b store | None \<Rightarrow> g store),
      after_attempts e who args (fst (attempts_of e w)) w)"
  using regen_attempt_loop_policy[of e who args f g store w] by simp

lemma attempts_of_range: "fst (attempts_of e w) \<in> {1, 2, 3}"
  by (simp add: attempts_of_def retry_policy_def split: option.splits)

lemma retry_trace_events: "set (retry_trace who args k) \<subseteq> {Call who args, Sleep 5000}"
  by (auto simp: retry_trace_def)

lemma trace_after_attempts [simp]:
  "trace (after_attempts e who args k w) = trace w @ retry_trace who args k"
  by (simp add: after_attempts_def)

lemma length_map_index [simp]: "length (map_index f xs) = length xs"
  by (simp add: map_index_def)

lemma nth_map_index [simp]: "k < length xs \<Longrightarrow> map_index f xs ! k = f (xs ! k) k"
  by (simp add: map_index_def nth_enumerate_eq)

lemma length_mark_cancelled [simp]: "length (mark_cancelled i store) = length store"
  by (simp add: mark_cancelled_def)

lemma nth_mark_cancelled:
  "k < length store \<Longrightarrow>
     mark_cancelled i store ! k =
       (if i \<le> k then (store ! k)\<lparr>isLoading := False, src := src_cancelled\<rparr> else store ! k)"
  by (simp add: mark_cancelled_def)

lemma length_reset_loading [simp]: "length (reset_loading i store) = length store"
  by (simp add: reset_loading_def)

lemma nth_reset_loading:
  "k < length store \<Longrightarrow>
     reset_loading i store ! k =
       (if i \<le> k then (store ! k)\<lparr>isLoading := False\<rparr> else store ! k)"
  by (simp add: reset_loading_def)

lemma src_literals_distinct:
  "src_error \<noteq> src_cancelled" "src_cancelled \<noteq> src_error" "data_png @ b \<noteq> src_error" "data_png @ b \<noteq> src_cancelled"
  "src_error \<noteq> []" "src_cancelled \<noteq> []"
  by (simp_all add: src_error_def src_cancelled_def data_png_def asc_def)

lemma status_of_simps:
  "status_of (r\<lparr>isLoading := False, src := src_cancelled\<rparr>) = Cancelled"
  "status_of (r\<lparr>src := src_error, isLoading := False\<rparr>) = Failed"
  "status_of (r\<lparr>src := data_png @ b, isLoading := False\<rparr>) = Succeeded"
  "isLoading r \<Longrightarrow> status_of r = Pending"
  by (simp_all add: status_of_def src_literals_distinct)

text \<open>The scene loop bodies, in terms of the retry policy.\<close>

lemma generate_body_policy:
  "generate_body e a c img i (sI, store, w) =
     (if isStopping w then Break (sI, mark_cancelled i store, w)
      else
        (let args = api_args a c img (if i > 0 then sI ! (i - 1) else None) False;
             w1 = after_attempts e i args (fst (attempts_of e w)) w
         in if isStopping w1 then Break (sI, mark_cancelled i store, w1)
            else
              (case snd (attempts_of e w) of
                 None \<Rightarrow>
                   Continue (sI[i := None],
                             store[i := (store ! i)\<lparr>src := src_error, isLoading := False\<rparr>], w1)
               | Some b \<Rightarrow>
                   if b \<noteq> [] then
                     Continue (sI[i := Some (data_png @ b)],
                               store[i := (store ! i)\<lparr>src := data_png @ b, isLoading := False\<rparr>],
                               w1)
                   else
                     Continue (sI[i := None],
                               store[i := (store ! i)\<lparr>src := src_error, isLoading := False\<rparr>],
                               w1))))"
  by (simp add: generate_body_def attempt_loop_policy_Suc Let_def split: option.splits)

lemma regenerate_body_policy:
  "i < length store \<Longrightarrow>
   regenerate_body e a c img i (sI, store, w) =
     (if isStopping w then Break (sI, reset_loading i store, w)
      else
        (let args = api_args a c img (if i > 0 then sI ! (i - 1) else None) True;
             w1 = after_attempts e i args (fst (attempts_of e w)) w
         in if isStopping w1 then Break (sI, reset_loading i store, w1)
            else
              (case snd (attempts_of e w) of
                 None \<Rightarrow>
                   Continue (sI[i := Some src_error],
                             store[i := (store ! i)\<lparr>src := src_error, isLoading := False\<rparr>], w1)
               | Some b \<Rightarrow>
                   if b \<noteq> [] then
                     Continue (sI[i := Some (data_png @ b)],
                               store[i := (store ! i)\<lparr>src := data_png @ b, isLoading := False\<rparr>],
                               w1)
                   else
                     Continue (sI[i := Some src_error],
                               store[i := (store ! i)\<lparr>src := src_error, isLoading := False\<rparr>],
                               w1))))"
  by (simp add: regenerate_body_def attempt_loop_policy_Suc Let_def split: option.splits)


lemma payload_of_simps:
  "payload_of (r\<lparr>src := src_error, isLoading := False\<rparr>) = None"
  "payload_of (r\<lparr>src := data_png @ b, isLoading := False\<rparr>) = Some (data_png @ b)"
  by (simp_all add: payload_of_def status_of_simps)

lemma generate_body_frame:
  assumes "generate_body e a c img i (sI, store, w) = r"
  obtains (stop) w1 evs where "r = Break (sI, mark_cancelled i store, w1)"
      and "trace w1 = trace w @ evs"
      and "set evs \<subseteq> {Call i (api_args a c img (if i > 0 then sI ! (i - 1) else None) False),
                         Sleep 5000}"
  | (go) s w1 evs where
        "r = Continue (sI[i := payload_of ((store ! i)\<lparr>src := s, isLoading := False\<rparr>)],
                       store[i := (store ! i)\<lparr>src := s, isLoading := False\<rparr>], w1)"
      and "trace w1 = trace w @ evs"
      and "set evs \<subseteq> {Call i (api_args a c img (if i > 0 then sI ! (i - 1) else None) False),
                         Sleep 5000}"
proof -
  let ?args = "api_args a c img (if i > 0 then sI ! (i - 1) else None) False"
  let ?w1 = "after_attempts e i ?args (fst (attempts_of e w)) w"
  have t: "trace ?w1 = trace w @ retry_trace i ?args (fst (attempts_of e w))"
    by simp
  note ev = retry_trace_events[of i ?args "fst (attempts_of e w)"]
  show thesis
  proof (cases "isStopping w")
    case True
    with assms have "r = Break (sI, mark_cancelled i store, w)"
      by (simp add: generate_body_policy)
    then show thesis using stop[of w "[]"] by simp
  next
    case False
    note nostop = this
    show thesis
    proof (cases "isStopping ?w1")
      case True
      with nostop assms have "r = Break (sI, mark_cancelled i store, ?w1)"
        by (simp add: generate_body_policy Let_def)
      then show thesis using stop[of ?w1, OF _ t ev] by simp
    next
      case False
      show thesis
      proof (cases "\<exists>b. snd (attempts_of e w) = Some b \<and> b \<noteq> []")
        case True
        then obtain b where b: "snd (attempts_of e w) = Some b" "b \<noteq> []" by blast
        with nostop False assms
        have "r = Continue (sI[i := Some (data_png @ b)],
                            store[i := (store ! i)\<lparr>src := data_png @ b, isLoading := False\<rparr>], ?w1)"
          by (simp add: generate_body_policy Let_def)
        then show thesis using go[of "data_png @ b" ?w1, OF _ t ev]
          by (simp add: payload_of_simps)
      next
        case nb: False
        with nostop False assms
        have "r = Continue (sI[i := None],
                            store[i := (store ! i)\<lparr>src := src_error, isLoading := False\<rparr>], ?w1)"
          by (auto simp: generate_body_policy Let_def split: option.splits)
        then show thesis using go[of src_error ?w1, OF _ t ev]
          by (simp add: payload_of_simps)
      qed
    qed
  qed
qed


lemma same_but_status_refl [simp]: "same_but_status r r"
  by (simp add: same_but_status_def)

lemma same_but_status_update [simp]:
  "same_but_status r (r\<lparr>src := s, isLoading := l\<rparr>)"
  "same_but_status r (r\<lparr>isLoading := l, src := s\<rparr>)"
  "same_but_status r (r\<lparr>isLoading := l\<rparr>)"
  by (simp_all add: same_but_status_def)

lemma same_but_status_trans:
  "same_but_status r r' \<Longrightarrow> same_but_status r' r'' \<Longrightarrow> same_but_status r r''"
  by (simp add: same_but_status_def)

lemma generate_loop_frame:
  assumes "generate_loop e a c ims i (sI, store, w) = (sI', store', w')"
    and "length store = length ims" and "length sI = length ims"
    and "0 < i \<Longrightarrow> i \<le> length ims \<Longrightarrow> sI ! (i - 1) = payload_of (store ! (i - 1))"
  shows "length store' = length ims
     \<and> (\<forall>k<length ims. k < i \<longrightarrow> store' ! k = store ! k)
     \<and> (\<forall>k<length ims. same_but_status (store ! k) (store' ! k))
     \<and> (\<exists>evs. trace w' = trace w @ evs
           \<and> (\<forall>j args. Call j args \<in> set evs \<longrightarrow>
                 i \<le> j \<and> j < length ims
                 \<and> a_previousImage args = (if j = 0 then None else payload_of (store' ! (j - 1)))))"
  using assms
proof (induction "length ims - i" arbitrary: i sI store w)
  case 0
  then have "\<not> i < length ims" by simp
  with "0.prems"(1) have "sI' = sI" "store' = store" "w' = w"
    by (simp_all add: generate_loop.simps)
  with "0.prems"(2) show ?case by simp
next
  case (Suc n)
  then have i: "i < length ims" by simp
  let ?args = "api_args a c (ims ! i) (if i > 0 then sI ! (i - 1) else None) False"
  have ref: "a_previousImage ?args = (if i = 0 then None else payload_of (store ! (i - 1)))"
    using Suc.prems(4) i by (simp add: api_args_def)
  obtain r where r: "generate_body e a c (ims ! i) i (sI, store, w) = r" by simp
  from r show ?case
  proof (cases rule: generate_body_frame)
    case (stop w1 evs)
    with i r Suc.prems(1) have res: "sI' = sI" "store' = mark_cancelled i store" "w' = w1"
      by (simp_all add: generate_loop.simps)
    have "\<forall>j args. Call j args \<in> set evs \<longrightarrow>
            i \<le> j \<and> j < length ims
            \<and> a_previousImage args = (if j = 0 then None else payload_of (store' ! (j - 1)))"
    proof (intro allI impI)
      fix j args assume "Call j args \<in> set evs"
      with stop(3) have "j = i" "args = ?args" by auto
      with ref i res Suc.prems(2)
      show "i \<le> j \<and> j < length ims
            \<and> a_previousImage args = (if j = 0 then None else payload_of (store' ! (j - 1)))"
        by (auto simp: nth_mark_cancelled)
    qed
    with res stop(2) Suc.prems(2) show ?thesis
      by (simp add: nth_mark_cancelled)
  next
    case (go s w1 evs)
    let ?r1 = "(store ! i)\<lparr>src := s, isLoading := False\<rparr>"
    let ?sI1 = "sI[i := payload_of ?r1]"
    let ?store1 = "store[i := ?r1]"
    from go(1) i r Suc.prems(1)
    have loop: "generate_loop e a c ims (i + 1) (?sI1, ?store1, w1) = (sI', store', w')"
      by (simp add: generate_loop.simps[of e a c ims i])
    have n: "n = length ims - (i + 1)" using Suc.hyps(2) by simp
    have l1: "length ?store1 = length ims" and l2: "length ?sI1 = length ims"
      using Suc.prems(2,3) by simp_all
    have ch: "?sI1 ! (i + 1 - 1) = payload_of (?store1 ! (i + 1 - 1))"
      using i Suc.prems(2,3) by simp
    from Suc.hyps(1)[OF n loop l1 l2 ch]
    have len: "length store' = length ims"
      and keep: "\<forall>k<length ims. k < i + 1 \<longrightarrow> store' ! k = ?store1 ! k"
      and same: "\<forall>k<length ims. same_but_status (?store1 ! k) (store' ! k)"
      and tr: "\<exists>evs. trace w' = trace w1 @ evs
           \<and> (\<forall>j args. Call j args \<in> set evs \<longrightarrow>
                 i + 1 \<le> j \<and> j < length ims
                 \<and> a_previousImage args = (if j = 0 then None else payload_of (store' ! (j - 1))))"
      by blast+
    from tr obtain evs2 where evs2: "trace w' = trace w1 @ evs2"
      "\<forall>j args. Call j args \<in> set evs2 \<longrightarrow>
                 i + 1 \<le> j \<and> j < length ims
                 \<and> a_previousImage args = (if j = 0 then None else payload_of (store' ! (j - 1)))"
      by blast
    have keep': "\<forall>k<length ims. k < i \<longrightarrow> store' ! k = store ! k"
      using keep by simp
    have same': "\<forall>k<length ims. same_but_status (store ! k) (store' ! k)"
    proof (intro allI impI)
      fix k assume k: "k < length ims"
      have "same_but_status (store ! k) (?store1 ! k)"
        using k Suc.prems(2) by (cases "k = i") simp_all
      with same k show "same_but_status (store ! k) (store' ! k)"
        using same_but_status_trans by blast
    qed
    have "\<forall>j args. Call j args \<in> set (evs @ evs2) \<longrightarrow>
            i \<le> j \<and> j < length ims
            \<and> a_previousImage args = (if j = 0 then None else payload_of (store' ! (j - 1)))"
    proof (intro allI impI)
      fix j args assume "Call j args \<in> set (evs @ evs2)"
      then consider "Call j args \<in> set evs" | "Call j args \<in> set evs2" by auto
      then show "i \<le> j \<and> j < length ims
            \<and> a_previousImage args = (if j = 0 then None else payload_of (store' ! (j - 1)))"
      proof cases
        case 1
        with go(3) have "j = i" "args = ?args" by auto
        with ref i keep' show ?thesis by simp
      next
        case 2
        with evs2(2) show ?thesis by fastforce
      qed
    qed
    moreover have "trace w' = trace w @ evs @ evs2"
      using evs2(1) go(2) by simp
    ultimately show ?thesis using len keep' same' by blast
  qed
qed

lemma length_initialImages [simp]: "length (initialImages e a scenes) = length scenes"
  by (simp add: initialImages_def)

lemma handleGenerate_run:
  assumes "handleGenerate e (a, w) = (a', w')"
    and "scenes = take (batchSize a) (parsePrompts (promptsText a))"
  shows "length (generatedImages a') = length scenes
     \<and> (\<forall>k<length scenes.
           same_but_status (initialImages e a scenes ! k) (generatedImages a' ! k))
     \<and> (\<exists>evs. trace w' = trace w @ evs
           \<and> (\<forall>j args. Call j args \<in> set evs \<longrightarrow>
                 j < length scenes
                 \<and> a_previousImage args
                     = (if j = 0 then None else payload_of (generatedImages a' ! (j - 1)))))"
proof (cases "scenes = []")
  case True
  with assms have "generatedImages a' = []" "trace w' = trace w"
    by (auto simp: handleGenerate_def Let_def)
  with True show ?thesis by simp
next
  case False
  let ?initial = "initialImages e a scenes"
  let ?w0 = "w\<lparr>isStopping := False\<rparr>"
  obtain sI' store' w1 where
    loop: "generate_loop e a (cleanStoryContext (storyContext a)) ?initial 0
             (replicate (length scenes) None, ?initial, ?w0) = (sI', store', w1)"
    by (metis prod_cases3)
  with False assms have res: "generatedImages a' = store'" "w' = w1"
    by (auto simp: handleGenerate_def Let_def)
  have l1: "length ?initial = length ?initial"
    and l2: "length (replicate (length scenes) (None :: jsstring option)) = length ?initial"
    by simp_all
  have ch: "0 < (0::nat) \<Longrightarrow> 0 \<le> length ?initial \<Longrightarrow>
              replicate (length scenes) None ! (0 - 1) = payload_of (?initial ! (0 - 1))"
    by simp
  from generate_loop_frame[OF loop l1 l2 ch]
  have A: "length store' = length ?initial"
    and B: "\<forall>k<length ?initial. same_but_status (?initial ! k) (store' ! k)"
    and C: "\<exists>evs. trace w1 = trace ?w0 @ evs
           \<and> (\<forall>j args. Call j args \<in> set evs \<longrightarrow>
                 0 \<le> j \<and> j < length ?initial
                 \<and> a_previousImage args = (if j = 0 then None else payload_of (store' ! (j - 1))))"
    by blast+
  from C obtain evs where e1: "trace w1 = trace ?w0 @ evs"
    and e2: "\<forall>j args. Call j args \<in> set evs \<longrightarrow>
                 0 \<le> j \<and> j < length ?initial
                 \<and> a_previousImage args = (if j = 0 then None else payload_of (store' ! (j - 1)))"
    by blast
  have 1: "length (generatedImages a') = length scenes" using A res by simp
  have 2: "\<forall>k<length scenes. same_but_status (?initial ! k) (generatedImages a' ! k)"
    using B res by simp
  have 3: "trace w' = trace w @ evs" using e1 res by simp
  have 4: "\<forall>j args. Call j args \<in> set evs \<longrightarrow>
             j < length scenes
             \<and> a_previousImage args
                 = (if j = 0 then None else payload_of (generatedImages a' ! (j - 1)))"
    using e2 unfolding res(1) length_initialImages by blast
  from 1 2 3 4 show ?thesis by blast
qed

lemma generate_loop_break:
  "i < length initial \<Longrightarrow> generate_body e a c (initial ! i) i st = Break st'
     \<Longrightarrow> generate_loop e a c initial i st = st'"
  by (subst generate_loop.simps) simp

lemma generate_body_break:
  assumes "seen = (if isStopping w then w
                   else snd (attempt_loop e i
                               (api_args a c img (if i > 0 then sI ! (i - 1) else None) False)
                               1 (False, None) w))"
    and "isStopping seen"
  shows "generate_body e a c img i (sI, store, w) = Break (sI, mark_cancelled i store, seen)"
proof (cases "isStopping w")
  case True
  with assms(1) show ?thesis by (simp add: generate_body_def)
next
  case False
  obtain s g w1 where
    at: "attempt_loop e i (api_args a c img (if i > 0 then sI ! (i - 1) else None) False)
           1 (False, None) w = ((s, g), w1)"
    by (metis prod.collapse)
  with False assms have "seen = w1" "isStopping w1" by simp_all
  with False at show ?thesis by (simp add: generate_body_def)
qed

lemma regenerate_loop_break:
  "i < length originalImages \<Longrightarrow> regenerate_body e a c (originalImages ! i) i st = Break st'
     \<Longrightarrow> regenerate_loop e a c originalImages i st = st'"
  by (subst regenerate_loop.simps) simp

lemma regenerate_body_break:
  assumes "seen = (if isStopping w then w
                   else snd (attempt_loop e i
                               (api_args a c img (if i > 0 then sI ! (i - 1) else None) True)
                               1 (False, None) w))"
    and "isStopping seen"
  shows "regenerate_body e a c img i (sI, store, w) = Break (sI, reset_loading i store, seen)"
proof (cases "isStopping w")
  case True
  with assms(1) show ?thesis by (simp add: regenerate_body_def)
next
  case False
  obtain s g w1 where
    at: "attempt_loop e i (api_args a c img (if i > 0 then sI ! (i - 1) else None) True)
           1 (False, None) w = ((s, g), w1)"
    by (metis prod.collapse)
  with False assms have "seen = w1" "isStopping w1" by simp_all
  with False at show ?thesis by (simp add: regenerate_body_def)
qed

text \<open>Scripts made of prompt blocks parse block by block.\<close>

lemma number_toString_digits: "number_toString n \<noteq> [] \<and> list_all is_digit (number_toString n)"
proof (induction n rule: number_toString.induct)
  case (1 n)
  show ?case
  proof (cases "n < 10")
    case True
    then show ?thesis by (subst (1 2) number_toString.simps) (simp add: is_digit_def)
  next
    case False
    have "n mod 10 < 10" by simp
    then have "is_digit (48 + n mod 10)" unfolding is_digit_def by linarith
    with False 1 show ?thesis by (subst (1 2) number_toString.simps) simp
  qed
qed

lemma Canh_marker: "starts_with Canh s \<Longrightarrow> \<exists>r. s = 67 # 7843 # r"
  by (auto simp: starts_with_iff Canh_def asc_def)

lemma block_body_no_marker:
  assumes "no_marker body" and "rest = [] \<or> header_at rest \<noteq> None"
  shows "block_body (body @ rest) = body"
  using assms
proof (induction body rule: no_marker.induct)
  case 1
  then show ?case by (cases rest) auto
next
  case (2 c)
  then have "header_at (c # rest) = None"
    using Canh_marker[of "c # rest"] by (auto simp: header_at_def)
  moreover from 2 have "block_body rest = []" by (cases rest) auto
  ultimately show ?case by simp
next
  case (3 c d r)
  then have "header_at (c # d # r @ rest) = None"
    using Canh_marker[of "c # d # r @ rest"] by (auto simp: header_at_def)
  with 3 show ?case by simp
qed

lemma match_blocks_block:
  assumes "ds \<noteq> []" and "list_all is_digit ds" and "no_marker body"
    and "rest = [] \<or> header_at rest \<noteq> None"
  shows "match_blocks (Canh @ ds @ 58 # body @ rest) = (Canh @ ds @ 58 # body) # match_blocks rest"
proof -
  have h: "header_at (Canh @ ds @ 58 # body @ rest) = Some (ds, body @ rest)"
    using assms(1,2) by (simp add: header_at_Some_iff)
  obtain c cs where s: "Canh @ ds @ 58 # body @ rest = c # cs"
    by (cases "Canh @ ds @ 58 # body @ rest") (simp_all add: Canh_def)
  have "match_blocks (c # cs) =
          (Canh @ ds @ [58] @ block_body (body @ rest))
          # match_blocks (drop (length (block_body (body @ rest))) (body @ rest))"
    using h s by simp
  with s block_body_no_marker[OF assms(3,4)] show ?thesis by simp
qed

lemma header_at_prompt_block: "header_at (prompt_block k @ rest) \<noteq> None"
proof -
  have "header_at (Canh @ number_toString k @ 58 # (PromptLabel @ asc ''a'' @ rest))
          = Some (number_toString k, PromptLabel @ asc ''a'' @ rest)"
    using number_toString_digits[of k] by (simp add: header_at_Some_iff)
  then show ?thesis by (simp add: prompt_block_def)
qed

lemma match_blocks_prompt_block:
  assumes "rest = [] \<or> header_at rest \<noteq> None"
  shows "match_blocks (prompt_block k @ rest) = prompt_block k # match_blocks rest"
proof -
  have nm: "no_marker (PromptLabel @ asc ''a'')"
    by (simp add: PromptLabel_def asc_def)
  have "match_blocks (Canh @ number_toString k @ 58 # (PromptLabel @ asc ''a'') @ rest)
          = (Canh @ number_toString k @ 58 # (PromptLabel @ asc ''a'')) # match_blocks rest"
    using number_toString_digits[of k] nm assms by (intro match_blocks_block) simp_all
  then show ?thesis by (simp add: prompt_block_def)
qed

lemma match_blocks_prompt_blocks: "match_blocks (concat (map prompt_block ks)) = map prompt_block ks"
proof (induction ks)
  case Nil
  show ?case by simp
next
  case (Cons k ks)
  have "concat (map prompt_block ks) = [] \<or> header_at (concat (map prompt_block ks)) \<noteq> None"
    by (cases ks) (simp_all add: header_at_prompt_block)
  from match_blocks_prompt_block[OF this, of k] Cons show ?case by simp
qed

lemma has_prompt_field_prompt_block: "has_prompt_field (prompt_block k)"
proof -
  have "prompt_block k = (Canh @ number_toString k @ [58]) @ PromptLabel @ asc ''a''"
    by (simp add: prompt_block_def)
  moreover have "\<exists>c\<in>set (asc ''a''). \<not> is_space c"
    by (simp add: asc_def is_space_def)
  ultimately show ?thesis unfolding has_prompt_field_def by blast
qed

lemma length_parse_prompt_blocks:
  "length (parsePrompts (concat (map prompt_block ks))) = length ks"
proof -
  have "filter (\<lambda>b. has_header b \<and> has_prompt_field b) (map prompt_block ks) = map prompt_block ks"
  proof (rule filter_True, rule ballI)
    fix b assume "b \<in> set (map prompt_block ks)"
    then obtain k where b: "b = prompt_block k" by auto
    have "sceneNumberMatch (prompt_block k) \<noteq> None"
      using header_at_prompt_block[of k "[]"]
      by (cases "prompt_block k") (auto simp: prompt_block_def Canh_def split: option.splits)
    with b show "has_header b \<and> has_prompt_field b"
      using sceneNumberMatch_iff has_prompt_field_prompt_block by simp
  qed
  then show ?thesis
    by (simp add: parsePrompts_def match_blocks_prompt_blocks parse_loop_filter)
qed

text \<open>Evaluating concrete scripts and runs.\<close>

lemma parse_script_two:
  "parsePrompts script_two =
     [\<lparr> prompt = asc ''a'', characterName = Khong, fullText = prompt_block 1, sceneNumber = 1 \<rparr>,
      \<lparr> prompt = asc ''a'', characterName = Khong, fullText = prompt_block 2, sceneNumber = 2 \<rparr>]"
  by (simp add: script_two_def prompt_block_def number_toString.simps literal_defs parser_defs)

lemmas run_defs =
  handleGenerate_def initialImages_def map_index_def enumerate_eq_zip
  app_of_def env_of_def scripted_def idle_def
  generate_loop.simps generate_body_policy attempts_of_def retry_policy_def
  after_attempts_def retry_trace_def api_args_def cleanStoryContext_def
  removeDialogue_def quoted_at_def mark_cancelled_def Let_def

lemma run_two_ok_eval:
  "run_two_ok =
     (\<lparr> storyContext = [], artStyle = [], promptsText = script_two, aspectRatio = Ratio_16_9,
        batchSize = 10, characters = [],
        generatedImages =
          [\<lparr> g_id = asc ''id0'', g_prompt = asc ''a'', src = data_png @ asc ''P'',
             isLoading = False, characterRefId = None, isSelected = False,
             sceneName = Canh @ asc ''1'', sceneScript = prompt_block 1 \<rparr>,
           \<lparr> g_id = asc ''id1'', g_prompt = asc ''a'', src = data_png @ asc ''Q'',
             isLoading = False, characterRefId = None, isSelected = False,
             sceneName = Canh @ asc ''2'', sceneScript = prompt_block 2 \<rparr>],
        isGenerating = False, error = None \<rparr>,
      \<lparr> trace =
          [Call 0 \<lparr> a_prompt = asc ''a'', a_storyContext = [], a_artStyle = [],
                    a_aspectRatio = Ratio_16_9, a_characterRef = None,
                    a_previousImage = None, a_isVariant = False \<rparr>,
           Call 1 \<lparr> a_prompt = asc ''a'', a_storyContext = [], a_artStyle = [],
                    a_aspectRatio = Ratio_16_9, a_characterRef = None,
                    a_previousImage = Some (data_png @ asc ''P''), a_isVariant = False \<rparr>],
        isStopping = False \<rparr>)"
  by (simp add: run_two_ok_def parse_script_two run_defs number_toString.simps asc_def)

lemma parse_no_scenes: "parsePrompts (asc ''no scenes here'') = []"
  by (simp add: literal_defs parser_defs)

lemma handleGenerate_length:
  "length (generatedImages (fst (handleGenerate e (a, w))))
     = min (batchSize a) (length (parsePrompts (promptsText a)))"
  using handleGenerate_run[of e a w "fst (handleGenerate e (a, w))" "snd (handleGenerate e (a, w))",
          OF _ refl]
  by simp

lemmas body_eval_defs =
  attempts_of_def retry_policy_def after_attempts_def retry_trace_def api_args_def
  removeDialogue_def quoted_at_def env_of_def scripted_def idle_def Let_def list_ex_iff

lemmas regen_all_defs =
  handleRegenerateAll_def regenerate_loop.simps regenerate_body_policy reset_loading_def
  map_index_def enumerate_eq_zip app_of_def result_of_def cleanStoryContext_def
  src_literals_distinct

lemma replicate_2: "replicate 2 x = [x, x]"
  by (simp add: numeral_2_eq_2)

lemma parse_script_one:
  "parsePrompts script_one =
     [\<lparr> prompt = asc ''a'', characterName = Khong, fullText = script_one, sceneNumber = 1 \<rparr>]"
  by (simp add: script_one_def prompt_block_def number_toString.simps literal_defs parser_defs)

lemmas regen_defs =
  regen_reference_def regen_success_def regen_failure_def replace_prompt_field_def

lemmas regen_run_defs =
  handleRegenerate_def regen_attempt_loop_policy_Suc attempts_of_def retry_policy_def
  after_attempts_def retry_trace_def api_args_def removeDialogue_def quoted_at_def
  cleanStoryContext_def env_of_def scripted_def idle_def app_of_def result_of_def
  number_toString.simps is_digit_def parseInt_def list_ex_iff Let_def

lemma parse_script_swapped:
  "parsePrompts script_swapped =
     [\<lparr> prompt = asc ''a'', characterName = Khong, fullText = prompt_block 2, sceneNumber = 2 \<rparr>,
      \<lparr> prompt = asc ''a'', characterName = Khong, fullText = prompt_block 1, sceneNumber = 1 \<rparr>]"
  by (simp add: script_swapped_def prompt_block_def number_toString.simps literal_defs parser_defs)

section \<open>C1: the continuity reference of a full run\<close>

text \<open>
  C1. In a full run (handleGenerate), every adapter call made for scene \<open>i\<close> carries as
  its continuity reference the payload of result \<open>i - 1\<close> when that result succeeded,
  and no reference when \<open>i = 0\<close> or when result \<open>i - 1\<close> did not succeed. The calls
  of the run are the events it appends to the log; the payload is read in the store the
  run leaves, where result \<open>i - 1\<close> is as it was when scene \<open>i\<close> was called.
\<close>

theorem chain_integrity:
  assumes "handleGenerate e (a, w) = (a', w')"
    and "Call i args \<in> set (drop (length (trace w)) (trace w'))"
  shows "i < length (generatedImages a')
     \<and> a_previousImage args
         = (if i = 0 then None else payload_of (generatedImages a' ! (i - 1)))"
proof -
  from handleGenerate_run[OF assms(1) refl]
  obtain evs where len: "length (generatedImages a')
                          = length (take (batchSize a) (parsePrompts (promptsText a)))"
    and tr: "trace w' = trace w @ evs"
    and calls: "\<forall>j args. Call j args \<in> set evs \<longrightarrow>
                  j < length (take (batchSize a) (parsePrompts (promptsText a)))
                  \<and> a_previousImage args
                      = (if j = 0 then None else payload_of (generatedImages a' ! (j - 1)))"
    by blast
  from tr assms(2) have "Call i args \<in> set evs" by simp
  with calls len show ?thesis by simp
qed

theorem chain_integrity_witness:
  "(case trace (snd run_two_ok) ! 1 of
      Call i args \<Rightarrow>
        i = 1 \<and> i < length (generatedImages (fst run_two_ok))
        \<and> a_previousImage args = payload_of (generatedImages (fst run_two_ok) ! 0)
        \<and> a_previousImage args = Some (data_png @ asc ''P'')
    | Sleep ms \<Rightarrow> False)"
proof -
  let ?args = "\<lparr> a_prompt = asc ''a'', a_storyContext = [], a_artStyle = [],
                  a_aspectRatio = Ratio_16_9, a_characterRef = None,
                  a_previousImage = Some (data_png @ asc ''P''), a_isVariant = False \<rparr>"
  have run: "handleGenerate (env_of (scripted [Some (asc ''P''), Some (asc ''Q'')] []))
               (app_of script_two [], idle) = (fst run_two_ok, snd run_two_ok)"
    by (simp add: run_two_ok_def)
  have ev: "trace (snd run_two_ok) ! 1 = Call 1 ?args"
    by (simp add: run_two_ok_eval)
  have "Call 1 ?args \<in> set (drop (length (trace idle)) (trace (snd run_two_ok)))"
    by (simp add: run_two_ok_eval idle_def)
  from chain_integrity[OF run this] ev show ?thesis by simp
qed

section \<open>C2: the chain of regenerate-all after a failure\<close>

text \<open>
  C2 does not hold of the code. When a scene of regenerate-all exhausts its attempts, the
  loop stores the string \<open>error\<close> in the chain, and the call for the next scene receives
  that string as its continuity reference; the adapter attaches a previous-image part
  for any non-empty reference. Here the three attempts of the first scene throw: the
  first result is marked failed, and the sixth event of the log is the call for the
  second scene, carrying \<open>error\<close>.
\<close>

theorem regenerate_all_chain_after_failure:
  "status_of (generatedImages (fst run_regen_first_fails) ! 0) = Failed
   \<and> length (trace (snd run_regen_first_fails)) = 6
   \<and> (case trace (snd run_regen_first_fails) ! 5 of
         Call i args \<Rightarrow>
           i = 1 \<and> a_previousImage args = Some src_error \<and> sends_previous_part args
       | Sleep ms \<Rightarrow> False)"
  by (simp add: run_regen_first_fails_def regen_all_defs body_eval_defs status_of_def replicate_2
        sends_previous_part_def number_toString.simps starts_with_iff data_image_def
        data_png_def src_error_def asc_def)

section \<open>C3: cancellation of a full run\<close>

text \<open>
  C3. Take the scene loop of handleGenerate at scene \<open>i\<close>, and let \<open>seen\<close> be the world
  in which the flag is first checked set: the world at the top of the iteration, or else
  the world after the attempts of scene \<open>i\<close>. If the flag is set there, the loop stops in
  that world, so no further adapter call is made and the only calls since the top of the
  iteration are those of scene \<open>i\<close>; the chain is untouched; the store keeps the results
  before \<open>i\<close> as they were and has every result from \<open>i\<close> on marked cancelled, whatever
  the attempts of scene \<open>i\<close> returned: a payload obtained meanwhile is not written.
\<close>

theorem cancellation_boundary:
  assumes "i < length initial"
    and "seen = (if isStopping w then w
                 else snd (attempt_loop e i
                             (api_args a c (initial ! i)
                                (if i > 0 then sceneImages ! (i - 1) else None) False)
                             1 (False, None) w))"
    and "isStopping seen"
  shows "generate_loop e a c initial i (sceneImages, store, w)
           = (sceneImages, mark_cancelled i store, seen)
     \<and> length (mark_cancelled i store) = length store
     \<and> (\<forall>k<length store.
           mark_cancelled i store ! k
             = (if i \<le> k then (store ! k)\<lparr>isLoading := False, src := src_cancelled\<rparr>
                else store ! k))
     \<and> (\<forall>k<length store. i \<le> k \<longrightarrow> status_of (mark_cancelled i store ! k) = Cancelled)
     \<and> (\<exists>evs. trace seen = trace w @ evs \<and> (\<forall>j args. Call j args \<in> set evs \<longrightarrow> j = i))"
proof -
  let ?args = "api_args a c (initial ! i) (if i > 0 then sceneImages ! (i - 1) else None) False"
  have loop: "generate_loop e a c initial i (sceneImages, store, w)
                = (sceneImages, mark_cancelled i store, seen)"
    using generate_loop_break[OF assms(1) generate_body_break[OF assms(2,3)]] .
  have st: "\<forall>k<length store. i \<le> k \<longrightarrow> status_of (mark_cancelled i store ! k) = Cancelled"
    by (simp add: nth_mark_cancelled status_of_simps)
  have "\<exists>evs. trace seen = trace w @ evs \<and> (\<forall>j args. Call j args \<in> set evs \<longrightarrow> j = i)"
  proof (cases "isStopping w")
    case True
    with assms(2) have "trace seen = trace w @ []" by simp
    then show ?thesis by (metis empty_iff empty_set)
  next
    case False
    with assms(2) have "trace seen = trace w @ retry_trace i ?args (fst (attempts_of e w))"
      by (simp add: attempt_loop_policy_Suc)
    moreover have "\<forall>j args'. Call j args' \<in> set (retry_trace i ?args (fst (attempts_of e w)))
                     \<longrightarrow> j = i"
      using retry_trace_events[of i ?args "fst (attempts_of e w)"] by auto
    ultimately show ?thesis by blast
  qed
  with loop st show ?thesis by (simp add: nth_mark_cancelled)
qed

theorem cancellation_boundary_witness:
  "generate_loop env_stop_in_wait (app_of script_two []) [] initial_three 1
     ([Some (data_png @ asc ''P''), None, None], store_three, idle)
   = ([Some (data_png @ asc ''P''), None, None],
      [result_of 1 (data_png @ asc ''P''),
       (pending_of 2)\<lparr>isLoading := False, src := src_cancelled\<rparr>,
       (pending_of 3)\<lparr>isLoading := False, src := src_cancelled\<rparr>],
      \<lparr> trace =
          [Call 1 \<lparr> a_prompt = asc ''a'', a_storyContext = [], a_artStyle = [],
                    a_aspectRatio = Ratio_16_9, a_characterRef = None,
                    a_previousImage = Some (data_png @ asc ''P''), a_isVariant = False \<rparr>,
           Sleep 5000,
           Call 1 \<lparr> a_prompt = asc ''a'', a_storyContext = [], a_artStyle = [],
                    a_aspectRatio = Ratio_16_9, a_characterRef = None,
                    a_previousImage = Some (data_png @ asc ''P''), a_isVariant = False \<rparr>],
        isStopping = True \<rparr>)
   \<and> map status_of (mark_cancelled 1 store_three) = [Succeeded, Cancelled, Cancelled]"
proof -
  let ?seen = "\<lparr> trace =
          [Call 1 \<lparr> a_prompt = asc ''a'', a_storyContext = [], a_artStyle = [],
                    a_aspectRatio = Ratio_16_9, a_characterRef = None,
                    a_previousImage = Some (data_png @ asc ''P''), a_isVariant = False \<rparr>,
           Sleep 5000,
           Call 1 \<lparr> a_prompt = asc ''a'', a_storyContext = [], a_artStyle = [],
                    a_aspectRatio = Ratio_16_9, a_characterRef = None,
                    a_previousImage = Some (data_png @ asc ''P''), a_isVariant = False \<rparr>],
        isStopping = True \<rparr>"
  have i: "1 < length initial_three" by (simp add: initial_three_def)
  have seen: "?seen = (if isStopping idle then idle
                 else snd (attempt_loop env_stop_in_wait 1
                             (api_args (app_of script_two []) [] (initial_three ! 1)
                                (if 1 > (0::nat) then [Some (data_png @ asc ''P''), None, None] ! (1 - 1)
                                 else None) False)
                             1 (False, None) idle))"
    by (simp add: attempt_loop_policy_Suc body_eval_defs env_stop_in_wait_def initial_three_def
          pending_of_def result_of_def app_of_def asc_def)
  have stop: "isStopping ?seen" by simp
  have m: "mark_cancelled 1 store_three =
      [result_of 1 (data_png @ asc ''P''),
       (pending_of 2)\<lparr>isLoading := False, src := src_cancelled\<rparr>,
       (pending_of 3)\<lparr>isLoading := False, src := src_cancelled\<rparr>]"
    by (simp add: mark_cancelled_def map_index_def enumerate_eq_zip store_three_def upt_rec)
  have s: "map status_of (mark_cancelled 1 store_three) = [Succeeded, Cancelled, Cancelled]"
    unfolding m by (simp add: status_of_def pending_of_def result_of_def src_literals_distinct)
  from cancellation_boundary[OF i seen stop, of store_three]
  have "generate_loop env_stop_in_wait (app_of script_two []) [] initial_three 1
          ([Some (data_png @ asc ''P''), None, None], store_three, idle)
        = ([Some (data_png @ asc ''P''), None, None], mark_cancelled 1 store_three, ?seen)"
    by blast
  with s show ?thesis unfolding m by blast
qed

section \<open>C4: cancellation of regenerate-all\<close>

text \<open>
  C4, as stated, fails: when regenerate-all sees the flag it only clears \<open>isLoading\<close>.
  A result that had failed before the run is shown failed again, not cancelled, although
  the attempt made for it meanwhile succeeded.
\<close>

theorem regenerate_all_cancel_counterexample:
  "isStopping (snd run_regen_stopped)
   \<and> map src (generatedImages (fst run_regen_stopped)) = [src_error]
   \<and> map status_of (generatedImages (fst run_regen_stopped)) = [Failed]"
  by (simp add: run_regen_stopped_def regen_all_defs body_eval_defs status_of_def
        number_toString.simps starts_with_iff data_image_def src_error_def asc_def)

text \<open>
  C4, amended. When regenerate-all sees the flag at scene \<open>i\<close> (at the top of the
  iteration or after the attempts of scene \<open>i\<close>), the loop stops there, and every result
  from \<open>i\<close> on has its loading state reset and keeps its prior content; the results
  before \<open>i\<close> are as they were. No result changes its \<open>src\<close>.
\<close>

theorem regenerate_all_cancellation:
  assumes "i < length originalImages"
    and "seen = (if isStopping w then w
                 else snd (attempt_loop e i
                             (api_args a c (originalImages ! i)
                                (if i > 0 then newImageSrcs ! (i - 1) else None) True)
                             1 (False, None) w))"
    and "isStopping seen"
  shows "regenerate_loop e a c originalImages i (newImageSrcs, store, w)
           = (newImageSrcs, reset_loading i store, seen)
     \<and> length (reset_loading i store) = length store
     \<and> (\<forall>k<length store.
           reset_loading i store ! k
             = (if i \<le> k then (store ! k)\<lparr>isLoading := False\<rparr> else store ! k))
     \<and> (\<forall>k<length store. src (reset_loading i store ! k) = src (store ! k))"
proof -
  have "regenerate_loop e a c originalImages i (newImageSrcs, store, w)
          = (newImageSrcs, reset_loading i store, seen)"
    using regenerate_loop_break[OF assms(1) regenerate_body_break[OF assms(2,3)]] .
  then show ?thesis by (simp add: nth_reset_loading)
qed

theorem regenerate_all_cancellation_witness:
  "regenerate_loop (env_of (scripted [Some (asc ''Q'')] [0])) (app_of (prompt_block 1) []) []
     [result_of 1 src_error] 0 ([None], [(result_of 1 src_error)\<lparr>isLoading := True\<rparr>], idle)
   = ([None], [result_of 1 src_error],
      \<lparr> trace = [Call 0 \<lparr> a_prompt = asc ''a'', a_storyContext = [], a_artStyle = [],
                            a_aspectRatio = Ratio_16_9, a_characterRef = None,
                            a_previousImage = None, a_isVariant = True \<rparr>],
        isStopping = True \<rparr>)"
proof -
  let ?seen = "\<lparr> trace = [Call 0 \<lparr> a_prompt = asc ''a'', a_storyContext = [], a_artStyle = [],
                            a_aspectRatio = Ratio_16_9, a_characterRef = None,
                            a_previousImage = None, a_isVariant = True \<rparr>],
        isStopping = True \<rparr>"
  have i: "0 < length [result_of 1 src_error]" by simp
  have seen: "?seen = (if isStopping idle then idle
                 else snd (attempt_loop (env_of (scripted [Some (asc ''Q'')] [0])) 0
                             (api_args (app_of (prompt_block 1) []) [] ([result_of 1 src_error] ! 0)
                                (if 0 > (0::nat) then [None] ! (0 - 1) else None) True)
                             1 (False, None) idle))"
    by (simp add: attempt_loop_policy_Suc body_eval_defs result_of_def app_of_def asc_def)
  have stop: "isStopping ?seen" by simp
  have m: "reset_loading 0 [(result_of 1 src_error)\<lparr>isLoading := True\<rparr>] = [result_of 1 src_error]"
    by (simp add: reset_loading_def map_index_def enumerate_eq_zip result_of_def)
  from regenerate_all_cancellation[OF i seen stop,
         of "[(result_of 1 src_error)\<lparr>isLoading := True\<rparr>]"]
  show ?thesis unfolding m by blast
qed

section \<open>C5: the retry budget\<close>

text \<open>
  C5, as stated, fails in the full run: an adapter call that returns an empty payload
  ends the attempts, and the result is marked failed after that single invocation, with
  no failed attempt at all.
\<close>

theorem retry_budget_counterexample:
  "response (outcomes (env_of (scripted [Some []] [])) 0) = Some []
   \<and> length (trace (snd run_empty_payload)) = 1
   \<and> map status_of (generatedImages (fst run_empty_payload)) = [Failed]"
  by (simp add: run_empty_payload_def parse_script_one run_defs status_of_def
        list_ex_iff src_literals_distinct)

text \<open>
  C5, amended. In each procedure a scene's generation follows the retry policy: at most
  three adapter invocations, one 5-second wait between consecutive ones, the attempts
  ending with the first call that returns; they obtain no payload exactly when all three
  calls throw. In the full run and in regenerate-all, started with the flag down, the
  scene is then settled as follows: if cancellation was requested meanwhile the loop
  breaks and the payload is dropped; otherwise a non-empty payload marks the result
  succeeded with its PNG data URI, and no payload or an empty one marks it failed. The
  single-scene regeneration marks the result succeeded with the data URI of whatever
  payload it obtained, and failed when it obtained none.
\<close>

theorem retry_budget:
  assumes "\<not> isStopping w" and "i < length store"
    and "findIndex (\<lambda>img. g_id img = imageId) (generatedImages a) = Some ix"
  shows
    "fst (attempts_of e w) \<in> {1, 2, 3}
     \<and> (snd (attempts_of e w) = None \<longleftrightarrow>
          response (outcomes e (length (trace w))) = None
          \<and> response (outcomes e (length (trace w) + 2)) = None
          \<and> response (outcomes e (length (trace w) + 4)) = None)
     \<and> generate_body e a c img i (sceneImages, store, w) =
         (let args = api_args a c img (if i > 0 then sceneImages ! (i - 1) else None) False;
              w1 = after_attempts e i args (fst (attempts_of e w)) w;
              s = settled_src (snd (attempts_of e w))
          in if isStopping w1 then Break (sceneImages, mark_cancelled i store, w1)
             else Continue (sceneImages[i := (if s = src_error then None else Some s)],
                            store[i := (store ! i)\<lparr>src := s, isLoading := False\<rparr>], w1))
     \<and> regenerate_body e a c img i (newImageSrcs, store, w) =
         (let args = api_args a c img (if i > 0 then newImageSrcs ! (i - 1) else None) True;
              w1 = after_attempts e i args (fst (attempts_of e w)) w;
              s = settled_src (snd (attempts_of e w))
          in if isStopping w1 then Break (newImageSrcs, reset_loading i store, w1)
             else Continue (newImageSrcs[i := Some s],
                            store[i := (store ! i)\<lparr>src := s, isLoading := False\<rparr>], w1))
     \<and> handleRegenerate e imageId promptOverride (a, w) =
         (let imageToRegen = generatedImages a ! ix;
              store0 = map (\<lambda>img. if g_id img = imageId then img\<lparr>isLoading := True\<rparr> else img)
                           (generatedImages a);
              finalPrompt = (case promptOverride of Some p \<Rightarrow> p | None \<Rightarrow> g_prompt imageToRegen);
              args = (api_args a (cleanStoryContext (storyContext a)) imageToRegen
                        (regen_reference a imageToRegen) True)
                       \<lparr>a_prompt := removeDialogue finalPrompt\<rparr>
          in (a\<lparr>generatedImages :=
                   (case snd (attempts_of e w) of
                      Some b \<Rightarrow> regen_success imageId imageToRegen finalPrompt promptOverride b store0
                    | None \<Rightarrow> regen_failure imageId store0)\<rparr>,
              after_attempts e ix args (fst (attempts_of e w)) w))"
proof -
  have 1: "fst (attempts_of e w) \<in> {1, 2, 3}" by (rule attempts_of_range)
  have 2: "snd (attempts_of e w) = None \<longleftrightarrow>
          response (outcomes e (length (trace w))) = None
          \<and> response (outcomes e (length (trace w) + 2)) = None
          \<and> response (outcomes e (length (trace w) + 4)) = None"
    by (simp add: attempts_of_def retry_policy_def split: option.splits)
  have 3: "generate_body e a c img i (sceneImages, store, w) =
         (let args = api_args a c img (if i > 0 then sceneImages ! (i - 1) else None) False;
              w1 = after_attempts e i args (fst (attempts_of e w)) w;
              s = settled_src (snd (attempts_of e w))
          in if isStopping w1 then Break (sceneImages, mark_cancelled i store, w1)
             else Continue (sceneImages[i := (if s = src_error then None else Some s)],
                            store[i := (store ! i)\<lparr>src := s, isLoading := False\<rparr>], w1))"
    using assms(1)
    by (simp add: generate_body_policy settled_src_def Let_def src_literals_distinct
          split: option.splits)
  have 4: "regenerate_body e a c img i (newImageSrcs, store, w) =
         (let args = api_args a c img (if i > 0 then newImageSrcs ! (i - 1) else None) True;
              w1 = after_attempts e i args (fst (attempts_of e w)) w;
              s = settled_src (snd (attempts_of e w))
          in if isStopping w1 then Break (newImageSrcs, reset_loading i store, w1)
             else Continue (newImageSrcs[i := Some s],
                            store[i := (store ! i)\<lparr>src := s, isLoading := False\<rparr>], w1))"
    using assms(1,2)
    by (simp add: regenerate_body_policy settled_src_def Let_def split: option.splits)
  have 5: "handleRegenerate e imageId promptOverride (a, w) =
         (let imageToRegen = generatedImages a ! ix;
              store0 = map (\<lambda>img. if g_id img = imageId then img\<lparr>isLoading := True\<rparr> else img)
                           (generatedImages a);
              finalPrompt = (case promptOverride of Some p \<Rightarrow> p | None \<Rightarrow> g_prompt imageToRegen);
              args = (api_args a (cleanStoryContext (storyContext a)) imageToRegen
                        (regen_reference a imageToRegen) True)
                       \<lparr>a_prompt := removeDialogue finalPrompt\<rparr>
          in (a\<lparr>generatedImages :=
                   (case snd (attempts_of e w) of
                      Some b \<Rightarrow> regen_success imageId imageToRegen finalPrompt promptOverride b store0
                    | None \<Rightarrow> regen_failure imageId store0)\<rparr>,
              after_attempts e ix args (fst (attempts_of e w)) w))"
    using assms(3)
    by (simp add: handleRegenerate_def regen_attempt_loop_policy_Suc Let_def)
  from 1 2 3 4 5 show ?thesis by blast
qed

theorem retry_budget_witness:
  "generate_body env_third_succeeds (app_of script_one [result_of 1 src_error]) []
     (pending_of 1) 0 ([None], [pending_of 1], idle)
   = Continue ([Some (data_png @ asc ''Q'')],
               [(pending_of 1)\<lparr>src := data_png @ asc ''Q'', isLoading := False\<rparr>],
               \<lparr> trace = [Call 0 (call_plain False), Sleep 5000, Call 0 (call_plain False),
                           Sleep 5000, Call 0 (call_plain False)],
                 isStopping = False \<rparr>)
   \<and> handleRegenerate env_third_succeeds (asc ''id1'') None
       (app_of script_one [result_of 1 src_error], idle)
     = (app_of script_one [result_of 1 (data_png @ asc ''Q'')],
        \<lparr> trace = [Call 0 (call_plain True), Sleep 5000, Call 0 (call_plain True),
                    Sleep 5000, Call 0 (call_plain True)],
          isStopping = False \<rparr>)"
proof -
  have h1: "\<not> isStopping idle" by (simp add: idle_def)
  have h2: "0 < length [pending_of 1]" by simp
  have h3: "findIndex (\<lambda>img. g_id img = asc ''id1'')
              (generatedImages (app_of script_one [result_of 1 src_error])) = Some 0"
    by (simp add: app_of_def result_of_def number_toString.simps asc_def)
  note t = retry_budget[OF h1 h2 h3, of env_third_succeeds "[]" "pending_of 1" "[None]" "[None]" None]
  have a: "attempts_of env_third_succeeds idle = (3, Some (asc ''Q''))"
    by (simp add: attempts_of_def retry_policy_def env_third_succeeds_def env_of_def
          scripted_def idle_def)
  have g: "generate_body env_third_succeeds (app_of script_one [result_of 1 src_error]) []
     (pending_of 1) 0 ([None], [pending_of 1], idle)
   = Continue ([Some (data_png @ asc ''Q'')],
               [(pending_of 1)\<lparr>src := data_png @ asc ''Q'', isLoading := False\<rparr>],
               \<lparr> trace = [Call 0 (call_plain False), Sleep 5000, Call 0 (call_plain False),
                           Sleep 5000, Call 0 (call_plain False)],
                 isStopping = False \<rparr>)"
    apply (subst t[THEN conjunct2, THEN conjunct2, THEN conjunct1])
    apply (simp only: a fst_conv snd_conv)
    apply (simp add: settled_src_def after_attempts_def retry_trace_def replicate_2 api_args_def
          call_plain_def removeDialogue_def quoted_at_def pending_of_def result_of_def
          app_of_def env_third_succeeds_def env_of_def scripted_def idle_def list_ex_iff
          src_literals_distinct asc_def Let_def)
    done
  have r: "handleRegenerate env_third_succeeds (asc ''id1'') None
       (app_of script_one [result_of 1 src_error], idle)
     = (app_of script_one [result_of 1 (data_png @ asc ''Q'')],
        \<lparr> trace = [Call 0 (call_plain True), Sleep 5000, Call 0 (call_plain True),
                    Sleep 5000, Call 0 (call_plain True)],
          isStopping = False \<rparr>)"
    apply (subst t[THEN conjunct2, THEN conjunct2, THEN conjunct2, THEN conjunct2])
    apply (simp only: a fst_conv snd_conv)
    apply (simp add: after_attempts_def retry_trace_def replicate_2 api_args_def
          call_plain_def removeDialogue_def quoted_at_def result_of_def cleanStoryContext_def
          app_of_def env_third_succeeds_def env_of_def scripted_def idle_def list_ex_iff
          regen_defs parse_script_one number_toString.simps Canh_def is_digit_def parseInt_def
          asc_def Let_def)
    done
  from g r show ?thesis by blast
qed

section \<open>C6: a run without scenes\<close>

text \<open>
  C6, as stated, fails: a full run whose script parses to no scene does not leave the
  store as it was. handleGenerate clears the store before it parses, so a store that
  held a result is empty afterwards.
\<close>

theorem zero_scenes_counterexample:
  "parsePrompts (promptsText app_stale) = []
   \<and> generatedImages app_stale = [result_of 1 (data_png @ asc ''P'')]
   \<and> generatedImages (fst (handleGenerate (env_of (scripted [] [])) (app_stale, idle))) = []"
  by (simp add: app_stale_def app_of_def handleGenerate_def parse_no_scenes Let_def)

text \<open>
  C6, amended. When no scene is parsed (within the batch limit), the run reports the
  validation message and stops before any adapter call: the log is unchanged. By then it
  has lowered the cancellation flag, cleared the previous error and emptied the store;
  nothing else of the component changes.
\<close>

theorem zero_scenes_abort:
  assumes "take (batchSize a) (parsePrompts (promptsText a)) = []"
  shows "handleGenerate e (a, w) =
           (a\<lparr>generatedImages := [], isGenerating := False, error := Some no_prompt_message\<rparr>,
            w\<lparr>isStopping := False\<rparr>)"
  using assms by (simp add: handleGenerate_def Let_def)

theorem zero_scenes_abort_witness:
  "handleGenerate (env_of (scripted [] [])) (app_stale, idle) =
     (app_stale\<lparr>generatedImages := [], isGenerating := False, error := Some no_prompt_message\<rparr>,
      idle\<lparr>isStopping := False\<rparr>)
   \<and> trace (snd (handleGenerate (env_of (scripted [] [])) (app_stale, idle))) = []"
proof -
  have "take (batchSize app_stale) (parsePrompts (promptsText app_stale)) = []"
    by (simp add: app_stale_def app_of_def parse_no_scenes)
  from zero_scenes_abort[OF this, of "env_of (scripted [] [])" idle]
  show ?thesis by (simp add: idle_def)
qed

section \<open>C7: one pending result per scene\<close>

text \<open>
  C7, as stated, fails: the run keeps only the first \<open>batchSize\<close> parsed scenes, so a
  script of eleven scenes under the batch limit of ten gets ten results, not eleven.
\<close>

theorem one_result_per_scene_counterexample:
  "length (parsePrompts (promptsText app_eleven)) = 11
   \<and> batchSize app_eleven = 10
   \<and> length (generatedImages (fst (handleGenerate (env_of (scripted [] [])) (app_eleven, idle)))) = 10"
  by (simp add: handleGenerate_length app_eleven_def app_of_def script_eleven_def
        length_parse_prompt_blocks)

text \<open>
  C7, amended. A full run creates one pending result for each of the first \<open>batchSize\<close>
  parsed scenes, in their order: result \<open>k\<close> takes a fresh identifier and the prompt,
  the label and the script of scene \<open>k\<close>, with an empty \<open>src\<close>. These results replace
  the store, and the run changes nothing of them but the status and the payload: the
  store it leaves has the same length and, at each index, the same result but for
  \<open>src\<close> and \<open>isLoading\<close>.
\<close>

theorem one_result_per_batched_scene:
  assumes "scenes = take (batchSize a) (parsePrompts (promptsText a))"
    and "handleGenerate e (a, w) = (a', w')"
    and "k < length scenes"
  shows "length (initialImages e a scenes) = length scenes
     \<and> status_of (initialImages e a scenes ! k) = Pending
     \<and> src (initialImages e a scenes ! k) = []
     \<and> g_id (initialImages e a scenes ! k) = randomUUID e k
     \<and> g_prompt (initialImages e a scenes ! k) = prompt (scenes ! k)
     \<and> sceneName (initialImages e a scenes ! k) = Canh @ number_toString (sceneNumber (scenes ! k))
     \<and> sceneScript (initialImages e a scenes ! k) = fullText (scenes ! k)
     \<and> length (generatedImages a') = length scenes
     \<and> same_but_status (initialImages e a scenes ! k) (generatedImages a' ! k)"
proof -
  from handleGenerate_run[OF assms(2,1)] assms(3)
  have "length (generatedImages a') = length scenes"
    and "same_but_status (initialImages e a scenes ! k) (generatedImages a' ! k)"
    by blast+
  moreover have "status_of (initialImages e a scenes ! k) = Pending"
    using assms(3) by (simp add: initialImages_def status_of_def)
  moreover have "src (initialImages e a scenes ! k) = []"
    "g_id (initialImages e a scenes ! k) = randomUUID e k"
    "g_prompt (initialImages e a scenes ! k) = prompt (scenes ! k)"
    "sceneName (initialImages e a scenes ! k) = Canh @ number_toString (sceneNumber (scenes ! k))"
    "sceneScript (initialImages e a scenes ! k) = fullText (scenes ! k)"
    using assms(3) by (simp_all add: initialImages_def)
  ultimately show ?thesis by simp
qed

theorem one_result_per_batched_scene_witness:
  "length (generatedImages (fst run_two_ok)) = 2
   \<and> map sceneName (generatedImages (fst run_two_ok)) = [Canh @ asc ''1'', Canh @ asc ''2'']
   \<and> same_but_status
        (initialImages (env_of (scripted [Some (asc ''P''), Some (asc ''Q'')] []))
           (app_of script_two []) (parsePrompts script_two) ! 1)
        (generatedImages (fst run_two_ok) ! 1)"
proof -
  have s: "parsePrompts script_two
             = take (batchSize (app_of script_two [])) (parsePrompts (promptsText (app_of script_two [])))"
    by (simp add: app_of_def parse_script_two)
  have run: "handleGenerate (env_of (scripted [Some (asc ''P''), Some (asc ''Q'')] []))
               (app_of script_two [], idle) = (fst run_two_ok, snd run_two_ok)"
    by (simp add: run_two_ok_def)
  have k: "1 < length (parsePrompts script_two)"
    by (simp add: parse_script_two)
  from one_result_per_batched_scene[OF s run k] show ?thesis
    by (simp add: run_two_ok_eval)
qed

section \<open>C8: the parser drops exactly the blocks without a prompt\<close>



section \<open>C9: the continuity reference of a single-scene regeneration\<close>

text \<open>
  C9 does not hold of the code. The lookup accepts any result whose \<open>src\<close> is neither
  empty nor \<open>error\<close>, so a cancelled result, whose \<open>src\<close> is \<open>cancelled\<close>, is taken. Here
  result 2 was cancelled and the script now has scene 2 in front of scene 1:
  regenerating result 1 sends \<open>cancelled\<close> as the continuity reference, and the adapter
  attaches a previous-image part for it.
\<close>

theorem regenerate_reference_cancelled:
  "status_of (generatedImages app_cancelled_predecessor ! 1) = Cancelled
   \<and> regen_reference app_cancelled_predecessor (generatedImages app_cancelled_predecessor ! 0)
       = Some src_cancelled
   \<and> (case trace (snd (handleRegenerate (env_of (scripted [Some (asc ''Q'')] [])) (asc ''id1'') None
                          (app_cancelled_predecessor, idle))) ! 0 of
         Call i args \<Rightarrow>
           i = 0 \<and> a_previousImage args = Some src_cancelled \<and> sends_previous_part args
       | Sleep ms \<Rightarrow> False)"
  by (simp add: app_cancelled_predecessor_def regen_run_defs regen_defs parse_script_swapped
        status_of_def sends_previous_part_def src_literals_distinct Canh_def asc_def)

section \<open>C10: the prompt override in the scene script\<close>

text \<open>
  C10 does not hold of the code. The replacement runs from the prompt label to the end
  of the script, so every field after the prompt is lost. Here the stored script has a
  character field after the prompt; after a successful regeneration with the override
  \<open>new\<close> the result has the new prompt and the script ends with it: the character
  field is gone.
\<close>

theorem prompt_override_drops_later_fields:
  "js_includes (sceneScript (generatedImages app_with_character ! 0)) NhanVat
   \<and> (case handleRegenerate (env_of (scripted [Some (asc ''Q'')] [])) (asc ''id1'')
             (Some (asc ''new'')) (app_with_character, idle) of
         (a', w') \<Rightarrow>
           status_of (generatedImages a' ! 0) = Succeeded
           \<and> g_prompt (generatedImages a' ! 0) = asc ''new''
           \<and> sceneScript (generatedImages a' ! 0)
               = Canh @ asc ''1:'' @ [10] @ PromptLabel @ asc '' new''
           \<and> \<not> js_includes (sceneScript (generatedImages a' ! 0)) NhanVat)"
  by (simp add: app_with_character_def script_with_character_def regen_run_defs regen_defs
        status_of_def src_literals_distinct literal_defs)

end
